theory Spec2Isabelle
  imports Main "HOL-Library.Word"
begin

section \<open>Field-level personal-data encryption (core/encryption.py)\<close>

text \<open>
  The embedding follows \<^verbatim>\<open>PersonalDataEncryptor\<close> of \<^verbatim>\<open>src/core/encryption.py\<close>.
  A Python \<^verbatim>\<open>str\<close> is a \<^typ>\<open>string\<close>, one character per code point, so that \<open>length\<close>
  is \<^verbatim>\<open>len\<close>; how many bytes a character takes is decided by the UTF-8 codec, which is
  a parameter. A Python \<^verbatim>\<open>bytes\<close> value is a list of 8-bit words. Exceptions are values
  of a sum type. The
  functions of the standard library and of the \<^verbatim>\<open>cryptography\<close> package (UTF-8 codec,
  URL-safe base64, JSON, PBKDF2, HMAC, AES-GCM) are not code of this repository: they
  are the fields of a record of primitives that every operation takes as its first
  argument. The random source (\<^verbatim>\<open>os.urandom\<close>) and the clock (\<^verbatim>\<open>datetime.utcnow\<close>) are
  inputs as well.
\<close>

subsection \<open>Values\<close>

type_synonym byte = "8 word"
type_synonym bytes = "byte list"

text \<open>A bytes literal such as \<^verbatim>\<open>b'encryption_salt'\<close>.\<close>

definition ascii :: "string \<Rightarrow> bytes" where
  "ascii s = map (\<lambda>c. of_nat (of_char c)) s"

text \<open>\<^verbatim>\<open>class DataCategory(Enum)\<close> with the string value of each member.\<close>

datatype DataCategory =
  PASSPORT | FIO | ADDRESS | PHONE | VZH | PATENT | DOCUMENT_PHOTO | OTHER

fun category_value :: "DataCategory \<Rightarrow> string" where
  "category_value PASSPORT = ''passport''"
| "category_value FIO = ''fio''"
| "category_value ADDRESS = ''address''"
| "category_value PHONE = ''phone''"
| "category_value VZH = ''vzh''"
| "category_value PATENT = ''patent''"
| "category_value DOCUMENT_PHOTO = ''document_photo''"
| "category_value OTHER = ''other''"

definition all_categories :: "DataCategory list" where
  "all_categories = [PASSPORT, FIO, ADDRESS, PHONE, VZH, PATENT, DOCUMENT_PHOTO, OTHER]"

text \<open>
  The values a \<^verbatim>\<open>Dict[str, Any]\<close> of this program holds, and the values \<^verbatim>\<open>json.loads\<close>
  returns (floats are left out). A dict is an association list in insertion order.
\<close>

datatype pyval =
    VNone
  | VBool bool
  | VInt int
  | VStr string
  | VList "pyval list"
  | VDict "(string \<times> pyval) list"

type_synonym pydict = "(string \<times> pyval) list"

text \<open>\<^verbatim>\<open>d[k] = v\<close>: an existing key keeps its position, a new key is appended.\<close>

fun dict_set :: "pydict \<Rightarrow> string \<Rightarrow> pyval \<Rightarrow> pydict" where
  "dict_set [] k v = [(k, v)]"
| "dict_set ((k', v') # d) k v = (if k' = k then (k, v) # d else (k', v') # dict_set d k v)"

text \<open>Truth value of an object (\<^verbatim>\<open>if value:\<close>).\<close>

fun truthy :: "pyval \<Rightarrow> bool" where
  "truthy VNone = False"
| "truthy (VBool b) = b"
| "truthy (VInt n) = (n \<noteq> 0)"
| "truthy (VStr s) = (s \<noteq> [])"
| "truthy (VList xs) = (xs \<noteq> [])"
| "truthy (VDict d) = (d \<noteq> [])"

fun is_str :: "pyval \<Rightarrow> bool" where
  "is_str (VStr s) = True"
| "is_str v = False"

text \<open>Decimal digits of an integer, as \<^verbatim>\<open>str(n)\<close> and \<^verbatim>\<open>f"{n}"\<close> print them.\<close>

fun digits :: "nat \<Rightarrow> string" where
  "digits n = (if n < 10 then [char_of (48 + n)] else digits (n div 10) @ [char_of (48 + n mod 10)])"

definition str_int :: "int \<Rightarrow> string" where
  "str_int n = (if n < 0 then CHR ''-'' # digits (nat (- n)) else digits (nat n))"

text \<open>
  Python slicing \<^verbatim>\<open>xs[a:b]\<close> with optional, possibly negative bounds: a negative bound
  counts from the end, and every bound is clamped to the sequence.
\<close>

definition slice_index :: "nat \<Rightarrow> int \<Rightarrow> nat" where
  "slice_index n i = (if i < 0 then nat (int n + i) else min n (nat i))"

definition py_slice :: "int option \<Rightarrow> int option \<Rightarrow> 'a list \<Rightarrow> 'a list" where
  "py_slice a b xs =
     (let n = length xs;
          lo = (case a of None \<Rightarrow> 0 | Some i \<Rightarrow> slice_index n i);
          hi = (case b of None \<Rightarrow> n | Some j \<Rightarrow> slice_index n j)
      in drop lo (take hi xs))"

subsection \<open>Exceptions\<close>

text \<open>
  Built-in and library exceptions, and the three exception classes of the module. The
  module's \<^verbatim>\<open>EncryptionError\<close> and \<^verbatim>\<open>DecryptionError\<close> carry the exception they wrap,
  \<^verbatim>\<open>SecurityError\<close> its fixed message.
\<close>

datatype pyexc =
    ValueError
  | ZeroDivisionError
  | UnicodeEncodeError
  | UnicodeDecodeError
  | BinasciiError
  | JSONDecodeError
  | AttributeError
  | KeyError

datatype error =
    Builtin pyexc
  | EncryptionError pyexc
  | DecryptionError pyexc
  | SecurityError string

subsection \<open>Library primitives\<close>

text \<open>What the AES-GCM decryptor of the library raises.\<close>

datatype gcm_failure = InvalidTag | BadParameters

text \<open>
  \<^item> \<open>utf8_encode\<close>, \<open>utf8_decode\<close>: \<^verbatim>\<open>str.encode('utf-8')\<close>, \<^verbatim>\<open>bytes.decode('utf-8')\<close>;
    \<open>None\<close> is \<^verbatim>\<open>UnicodeEncodeError\<close>, \<^verbatim>\<open>UnicodeDecodeError\<close>.
  \<^item> \<open>b64encode\<close>, \<open>b64decode\<close>: \<^verbatim>\<open>base64.urlsafe_b64encode\<close>, \<^verbatim>\<open>urlsafe_b64decode\<close>;
    \<open>None\<close> is \<^verbatim>\<open>binascii.Error\<close>.
  \<^item> \<open>json_dumps\<close>: \<^verbatim>\<open>json.dumps(_, ensure_ascii=False)\<close>; \<open>json_loads\<close>: \<^verbatim>\<open>json.loads\<close>,
    \<open>None\<close> is \<^verbatim>\<open>JSONDecodeError\<close>.
  \<^item> \<open>pbkdf2_hmac_sha256 salt iterations length key_material\<close>: \<^verbatim>\<open>PBKDF2HMAC(...).derive\<close>.
  \<^item> \<open>hmac_sha256 key message\<close>: the digest \<^verbatim>\<open>HMAC(key, SHA256()).update(message).finalize()\<close>.
  \<^item> \<open>gcm_encrypt key iv plaintext\<close>: ciphertext and tag of AES-GCM;
    \<open>gcm_decrypt key iv tag ciphertext\<close>: the plaintext, \<open>InvalidTag\<close>, or the
    \<^verbatim>\<open>ValueError\<close> of the \<^verbatim>\<open>GCM\<close> constructor for an IV or tag of a wrong size.
  \<^item> \<open>py_repr\<close>: \<^verbatim>\<open>str()\<close> of a list or dict.
\<close>

record prims =
  utf8_encode :: "string \<Rightarrow> bytes option"
  utf8_decode :: "bytes \<Rightarrow> string option"
  b64encode :: "bytes \<Rightarrow> bytes"
  b64decode :: "bytes \<Rightarrow> bytes option"
  json_dumps :: "pyval \<Rightarrow> string"
  json_loads :: "string \<Rightarrow> pyval option"
  pbkdf2_hmac_sha256 :: "bytes \<Rightarrow> nat \<Rightarrow> nat \<Rightarrow> bytes \<Rightarrow> bytes"
  hmac_sha256 :: "bytes \<Rightarrow> bytes \<Rightarrow> bytes"
  gcm_encrypt :: "bytes \<Rightarrow> bytes \<Rightarrow> bytes \<Rightarrow> bytes \<times> bytes"
  gcm_decrypt :: "bytes \<Rightarrow> bytes \<Rightarrow> bytes \<Rightarrow> bytes \<Rightarrow> gcm_failure + bytes"
  py_repr :: "pyval \<Rightarrow> string"

text \<open>\<^verbatim>\<open>str(value)\<close>.\<close>

fun py_str :: "prims \<Rightarrow> pyval \<Rightarrow> string" where
  "py_str P VNone = ''None''"
| "py_str P (VBool b) = (if b then ''True'' else ''False'')"
| "py_str P (VInt n) = str_int n"
| "py_str P (VStr s) = s"
| "py_str P v = py_repr P v"

text \<open>\<^verbatim>\<open>DataCategory(x)\<close>: the member whose value is \<open>x\<close>, or \<^verbatim>\<open>ValueError\<close>.\<close>

definition DataCategory_of :: "pyval \<Rightarrow> pyexc + DataCategory" where
  "DataCategory_of x =
     (case x of
        VStr s \<Rightarrow> (case find (\<lambda>c. category_value c = s) all_categories of
                     None \<Rightarrow> Inl ValueError
                   | Some c \<Rightarrow> Inr c)
      | _ \<Rightarrow> Inl ValueError)"

text \<open>\<^verbatim>\<open>obj.get(key, default)\<close>: only a dict has the method.\<close>

definition py_get :: "pyval \<Rightarrow> string \<Rightarrow> pyval \<Rightarrow> pyexc + pyval" where
  "py_get obj k dflt =
     (case obj of
        VDict d \<Rightarrow> (case map_of d k of None \<Rightarrow> Inr dflt | Some v \<Rightarrow> Inr v)
      | _ \<Rightarrow> Inl AttributeError)"

text \<open>\<^verbatim>\<open>d[key]\<close> on a dict.\<close>

definition dict_item :: "pydict \<Rightarrow> string \<Rightarrow> pyexc + pyval" where
  "dict_item d k = (case map_of d k of None \<Rightarrow> Inl KeyError | Some v \<Rightarrow> Inr v)"

subsection \<open>The encryptor\<close>

record encryptor =
  master_key :: bytes
  key_rotation_days :: int
  encryption_key :: bytes
  auth_key :: bytes

definition ENCRYPTED_FIELDS :: "string list" where
  "ENCRYPTED_FIELDS =
     [''fio'', ''passport_series'', ''passport_number'', ''passport_issue_date'',
      ''passport_issued_by'', ''address'', ''phone'', ''vzh_number'', ''patent_number'',
      ''document_scan_path'', ''email'', ''snils'', ''inn'']"

text \<open>\<^verbatim>\<open>_derive_keys\<close>: the encryption key and the authentication key.\<close>

definition derive_keys :: "prims \<Rightarrow> bytes \<Rightarrow> bytes \<times> bytes" where
  "derive_keys P mk =
     (pbkdf2_hmac_sha256 P (ascii ''encryption_salt'') 100000 32 mk,
      pbkdf2_hmac_sha256 P (ascii ''authentication_salt'') 100000 32 mk)"

text \<open>
  \<^verbatim>\<open>__init__(master_key, key_rotation_days)\<close>: \<^verbatim>\<open>len(master_key)\<close> counts the characters
  of the string; the key material is its UTF-8 encoding.
\<close>

definition init :: "prims \<Rightarrow> string \<Rightarrow> int \<Rightarrow> error + encryptor" where
  "init P master_key_str rotation_days =
     (if length master_key_str \<noteq> 32 then Inl (Builtin ValueError)
      else (case utf8_encode P master_key_str of
              None \<Rightarrow> Inl (Builtin UnicodeEncodeError)
            | Some mk \<Rightarrow>
                (let (ek, ak) = derive_keys P mk
                 in Inr \<lparr>master_key = mk, key_rotation_days = rotation_days,
                         encryption_key = ek, auth_key = ak\<rparr>)))"

text \<open>
  \<^verbatim>\<open>_get_current_key_version\<close>; the argument \<open>days\<close> is
  \<^verbatim>\<open>(datetime.utcnow() - datetime(2020, 1, 1)).days\<close>. Floor division, as \<open>div\<close> on
  \<^typ>\<open>int\<close>; a rotation period of 0 raises.
\<close>

definition get_current_key_version :: "encryptor \<Rightarrow> int \<Rightarrow> pyexc + string" where
  "get_current_key_version enc days =
     (if key_rotation_days enc = 0 then Inl ZeroDivisionError
      else Inr (CHR ''v'' # str_int (days div key_rotation_days enc)))"

text \<open>
  What one call of \<^verbatim>\<open>encrypt_field\<close> reads from its environment: the 12 bytes of
  \<^verbatim>\<open>os.urandom(12)\<close>, and the two readings of the clock in \<^verbatim>\<open>_create_metadata\<close>.
\<close>

record field_env =
  iv :: bytes
  encrypted_at :: string
  days_since_epoch :: int

text \<open>The dict literal of \<^verbatim>\<open>_create_metadata\<close>.\<close>

definition metadata_dict :: "string \<Rightarrow> string \<Rightarrow> string \<Rightarrow> pyval" where
  "metadata_dict category at key_version =
     VDict [(''category'', VStr category),
            (''encrypted_at'', VStr at),
            (''key_version'', VStr key_version),
            (''compliance'', VStr ''152-FZ'')]"

definition create_metadata :: "encryptor \<Rightarrow> field_env \<Rightarrow> DataCategory \<Rightarrow> pyexc + pyval" where
  "create_metadata enc env data_category =
     (case get_current_key_version enc (days_since_epoch env) of
        Inl e \<Rightarrow> Inl e
      | Inr kv \<Rightarrow> Inr (metadata_dict (category_value data_category) (encrypted_at env) kv))"

definition data_package :: "pyval \<Rightarrow> string \<Rightarrow> pyval" where
  "data_package metadata plain_text = VDict [(''metadata'', metadata), (''data'', VStr plain_text)]"

text \<open>
  \<^verbatim>\<open>encrypt_field\<close>. Every exception raised inside the \<^verbatim>\<open>try\<close> block becomes an
  \<^verbatim>\<open>EncryptionError\<close>.
\<close>

definition encrypt_field ::
  "prims \<Rightarrow> encryptor \<Rightarrow> field_env \<Rightarrow> string \<Rightarrow> DataCategory \<Rightarrow> error + string" where
  "encrypt_field P enc env plain_text data_category =
     (if plain_text = [] then Inr []
      else
        (case create_metadata enc env data_category of
           Inl e \<Rightarrow> Inl (EncryptionError e)
         | Inr metadata \<Rightarrow>
             (case utf8_encode P (json_dumps P (data_package metadata plain_text)) of
                None \<Rightarrow> Inl (EncryptionError UnicodeEncodeError)
              | Some json_bytes \<Rightarrow>
                  (let (encrypted_data, auth_tag) =
                         gcm_encrypt P (encryption_key enc) (iv env) json_bytes;
                       hmac_digest =
                         hmac_sha256 P (auth_key enc) (iv env @ encrypted_data @ auth_tag);
                       combined = iv env @ encrypted_data @ auth_tag @ hmac_digest
                   in (case utf8_decode P (b64encode P combined) of
                         None \<Rightarrow> Inl (EncryptionError UnicodeDecodeError)
                       | Some s \<Rightarrow> Inr s)))))"

text \<open>
  The library operations \<^verbatim>\<open>decrypt_field\<close> performs are recorded, in order, so that what
  was and was not executed can be stated.
\<close>

datatype op = Base64Decode | HmacCompute | AeadDecrypt | JsonLoads

text \<open>Lines 173 to 176: category and data of the decrypted package.\<close>

definition read_package :: "pyval \<Rightarrow> pyexc + pyval \<times> DataCategory" where
  "read_package pkg =
     (case py_get pkg ''metadata'' (VDict []) of
        Inl e \<Rightarrow> Inl e
      | Inr metadata \<Rightarrow>
          (case py_get metadata ''category'' (VStr ''other'') of
             Inl e \<Rightarrow> Inl e
           | Inr cv \<Rightarrow>
               (case DataCategory_of cv of
                  Inl e \<Rightarrow> Inl e
                | Inr data_category \<Rightarrow>
                    (case pkg of
                       VDict d \<Rightarrow>
                         (case dict_item d ''data'' of
                            Inl e \<Rightarrow> Inl e
                          | Inr v \<Rightarrow> Inr (v, data_category))
                     | _ \<Rightarrow> Inl AttributeError))))"

text \<open>
  \<^verbatim>\<open>decrypt_field\<close>, with the operations performed. \<^verbatim>\<open>InvalidSignature\<close> and
  \<^verbatim>\<open>InvalidTag\<close> become a \<^verbatim>\<open>SecurityError\<close>, every other exception a
  \<^verbatim>\<open>DecryptionError\<close>.
\<close>

definition decrypt_field_run ::
  "prims \<Rightarrow> encryptor \<Rightarrow> string \<Rightarrow> op list \<times> (error + pyval \<times> DataCategory)" where
  "decrypt_field_run P enc encrypted_text =
     (if encrypted_text = [] then ([], Inr (VStr [], OTHER))
      else
        (case utf8_encode P encrypted_text of
           None \<Rightarrow> ([], Inl (DecryptionError UnicodeEncodeError))
         | Some raw \<Rightarrow>
             (case b64decode P raw of
                None \<Rightarrow> ([Base64Decode], Inl (DecryptionError BinasciiError))
              | Some combined \<Rightarrow>
                  (let iv = py_slice None (Some 12) combined;
                       auth_tag = py_slice (Some (- 48)) (Some (- 32)) combined;
                       hmac_digest = py_slice (Some (- 32)) None combined;
                       encrypted_data = py_slice (Some 12) (Some (- 48)) combined
                   in if hmac_sha256 P (auth_key enc) (iv @ encrypted_data @ auth_tag) \<noteq> hmac_digest
                      then ([Base64Decode, HmacCompute],
                            Inl (SecurityError ''Data integrity check failed - possible tampering''))
                      else
                        (case gcm_decrypt P (encryption_key enc) iv auth_tag encrypted_data of
                           Inl InvalidTag \<Rightarrow>
                             ([Base64Decode, HmacCompute, AeadDecrypt],
                              Inl (SecurityError ''Data authentication failed''))
                         | Inl BadParameters \<Rightarrow>
                             ([Base64Decode, HmacCompute, AeadDecrypt],
                              Inl (DecryptionError ValueError))
                         | Inr decrypted_json \<Rightarrow>
                             (case utf8_decode P decrypted_json of
                                None \<Rightarrow>
                                  ([Base64Decode, HmacCompute, AeadDecrypt],
                                   Inl (DecryptionError UnicodeDecodeError))
                              | Some json_text \<Rightarrow>
                                  (case json_loads P json_text of
                                     None \<Rightarrow>
                                       ([Base64Decode, HmacCompute, AeadDecrypt, JsonLoads],
                                        Inl (DecryptionError JSONDecodeError))
                                   | Some pkg \<Rightarrow>
                                       ([Base64Decode, HmacCompute, AeadDecrypt, JsonLoads],
                                        (case read_package pkg of
                                           Inl e \<Rightarrow> Inl (DecryptionError e)
                                         | Inr r \<Rightarrow> Inr r)))))))))"

definition decrypt_field :: "prims \<Rightarrow> encryptor \<Rightarrow> string \<Rightarrow> error + pyval \<times> DataCategory" where
  "decrypt_field P enc encrypted_text = snd (decrypt_field_run P enc encrypted_text)"

definition decrypt_field_ops :: "prims \<Rightarrow> encryptor \<Rightarrow> string \<Rightarrow> op list" where
  "decrypt_field_ops P enc encrypted_text = fst (decrypt_field_run P enc encrypted_text)"

subsection \<open>Whole records\<close>

definition field_category_map :: "(string \<times> DataCategory) list" where
  "field_category_map =
     [(''fio'', FIO),
      (''passport_series'', PASSPORT),
      (''passport_number'', PASSPORT),
      (''passport_issue_date'', PASSPORT),
      (''passport_issued_by'', PASSPORT),
      (''address'', ADDRESS),
      (''phone'', PHONE),
      (''vzh_number'', VZH),
      (''patent_number'', PATENT),
      (''document_scan_path'', DOCUMENT_PHOTO),
      (''email'', OTHER),
      (''snils'', OTHER),
      (''inn'', OTHER)]"

definition map_field_to_category :: "string \<Rightarrow> DataCategory" where
  "map_field_to_category field =
     (case map_of field_category_map field of None \<Rightarrow> OTHER | Some c \<Rightarrow> c)"

text \<open>
  What \<^verbatim>\<open>auto_encrypt_user_data\<close> reads from its environment: the environment of the
  \<^verbatim>\<open>encrypt_field\<close> call made for the item at each position, and the two clock readings
  of the closing stamps.
\<close>

record record_env =
  field_envs :: "nat \<Rightarrow> field_env"
  stamp_days :: int
  stamp_at :: string

text \<open>
  The loop of \<^verbatim>\<open>auto_encrypt_user_data\<close> over \<^verbatim>\<open>user_data.items()\<close>, from position \<open>i\<close>,
  with the dict built so far. An \<^verbatim>\<open>EncryptionError\<close> is logged and raised again.
\<close>

fun encrypt_items ::
  "prims \<Rightarrow> encryptor \<Rightarrow> (nat \<Rightarrow> field_env) \<Rightarrow> nat \<Rightarrow> pydict \<Rightarrow> pydict \<Rightarrow> error + pydict" where
  "encrypt_items P enc envs i [] encrypted_data = Inr encrypted_data"
| "encrypt_items P enc envs i ((field, val) # rest) encrypted_data =
     (if field \<in> set ENCRYPTED_FIELDS \<and> truthy val
      then (case encrypt_field P enc (envs i) (py_str P val) (map_field_to_category field) of
              Inl e \<Rightarrow> Inl e
            | Inr s \<Rightarrow> encrypt_items P enc envs (Suc i) rest (dict_set encrypted_data field (VStr s)))
      else encrypt_items P enc envs (Suc i) rest (dict_set encrypted_data field val))"

definition auto_encrypt_user_data ::
  "prims \<Rightarrow> encryptor \<Rightarrow> record_env \<Rightarrow> pydict \<Rightarrow> error + pydict" where
  "auto_encrypt_user_data P enc renv user_data =
     (case encrypt_items P enc (field_envs renv) 0 user_data [] of
        Inl e \<Rightarrow> Inl e
      | Inr encrypted_data \<Rightarrow>
          (case get_current_key_version enc (stamp_days renv) of
             Inl e \<Rightarrow> Inl (Builtin e)
           | Inr kv \<Rightarrow>
               Inr (dict_set
                      (dict_set (dict_set encrypted_data ''_encrypted'' (VBool True))
                         ''_encryption_version'' (VStr kv))
                      ''_encrypted_at'' (VStr (stamp_at renv)))))"

fun the_str :: "pyval \<Rightarrow> string" where
  "the_str (VStr s) = s"
| "the_str v = []"

definition DECRYPTION_ERROR :: pyval where
  "DECRYPTION_ERROR = VStr ''[DECRYPTION_ERROR]''"

text \<open>
  The loop of \<^verbatim>\<open>auto_decrypt_user_data\<close>. Only \<^verbatim>\<open>DecryptionError\<close> and \<^verbatim>\<open>SecurityError\<close>
  are caught.
\<close>

fun decrypt_items :: "prims \<Rightarrow> encryptor \<Rightarrow> pydict \<Rightarrow> pydict \<Rightarrow> error + pydict" where
  "decrypt_items P enc [] decrypted_data = Inr decrypted_data"
| "decrypt_items P enc ((field, val) # rest) decrypted_data =
     (if field \<in> set ENCRYPTED_FIELDS \<and> truthy val \<and> is_str val
      then (case decrypt_field P enc (the_str val) of
              Inr (decrypted_value, category) \<Rightarrow>
                decrypt_items P enc rest (dict_set decrypted_data field decrypted_value)
            | Inl (DecryptionError e) \<Rightarrow>
                decrypt_items P enc rest (dict_set decrypted_data field DECRYPTION_ERROR)
            | Inl (SecurityError m) \<Rightarrow>
                decrypt_items P enc rest (dict_set decrypted_data field DECRYPTION_ERROR)
            | Inl e \<Rightarrow> Inl e)
      else decrypt_items P enc rest (dict_set decrypted_data field val))"

definition auto_decrypt_user_data :: "prims \<Rightarrow> encryptor \<Rightarrow> pydict \<Rightarrow> error + pydict" where
  "auto_decrypt_user_data P enc encrypted_data = decrypt_items P enc encrypted_data []"

subsection \<open>Contracts of the library primitives\<close>

text \<open>
  The UTF-8 codec: decoding inverts encoding and encoding inverts decoding; the empty
  byte string decodes to the empty string.
\<close>

definition codec_ok :: "prims \<Rightarrow> bool" where
  "codec_ok P \<longleftrightarrow>
     (\<forall>s b. utf8_encode P s = Some b \<longrightarrow> utf8_decode P b = Some s) \<and>
     (\<forall>s b. utf8_decode P b = Some s \<longrightarrow> utf8_encode P s = Some b) \<and>
     utf8_decode P [] = Some []"

text \<open>
  Base64: decoding inverts encoding; the encoding is ASCII text, so it decodes as
  UTF-8; the encoding of a non-empty byte string is not empty.
\<close>

definition base64_ok :: "prims \<Rightarrow> bool" where
  "base64_ok P \<longleftrightarrow>
     (\<forall>bs. b64decode P (b64encode P bs) = Some bs) \<and>
     (\<forall>bs. utf8_decode P (b64encode P bs) \<noteq> None) \<and>
     (\<forall>bs. bs \<noteq> [] \<longrightarrow> b64encode P bs \<noteq> [])"

text \<open>
  JSON: a data package of strings is read back as it was written; the empty text is
  not a JSON document.
\<close>

definition json_ok :: "prims \<Rightarrow> bool" where
  "json_ok P \<longleftrightarrow>
     (\<forall>c t k s. json_loads P (json_dumps P (data_package (metadata_dict c t k) s))
                 = Some (data_package (metadata_dict c t k) s)) \<and>
     json_loads P [] = None"

text \<open>PBKDF2 returns as many bytes as asked for, HMAC-SHA256 returns 32 bytes.\<close>

definition kdf_ok :: "prims \<Rightarrow> bool" where
  "kdf_ok P \<longleftrightarrow> (\<forall>salt n len km. length (pbkdf2_hmac_sha256 P salt n len km) = len)"

definition hmac_ok :: "prims \<Rightarrow> bool" where
  "hmac_ok P \<longleftrightarrow> (\<forall>k m. length (hmac_sha256 P k m) = 32)"

text \<open>
  AES-256-GCM: under a 32-byte key and a 12-byte IV the tag has 16 bytes and
  decryption with that tag returns the plaintext; a plaintext that decryption returns
  is as long as the ciphertext.
\<close>

definition gcm_ok :: "prims \<Rightarrow> bool" where
  "gcm_ok P \<longleftrightarrow>
     (\<forall>k v pt ct tag. length k = 32 \<and> length v = 12 \<and> gcm_encrypt P k v pt = (ct, tag) \<longrightarrow>
        length tag = 16 \<and> gcm_decrypt P k v tag ct = Inr pt) \<and>
     (\<forall>k v tag ct pt. gcm_decrypt P k v tag ct = Inr pt \<longrightarrow> length pt = length ct)"

definition prims_ok :: "prims \<Rightarrow> bool" where
  "prims_ok P \<longleftrightarrow> codec_ok P \<and> base64_ok P \<and> json_ok P \<and> kdf_ok P \<and> hmac_ok P \<and> gcm_ok P"

subsection \<open>A small instance of the primitives\<close>

text \<open>
  A concrete instance of the record of primitives, on which the operations can be
  evaluated. Its UTF-8 codec is UTF-8 on the code points below 256; its base64 writes
  each byte as two letters; its JSON writes the four strings of a data package, each
  behind its length; its MAC is a checksum and its cipher a shift. The instance meets
  the contracts above (\<open>sample_prims_ok\<close>).
\<close>

definition byte_of_nat :: "nat \<Rightarrow> byte" where
  "byte_of_nat n = of_nat n"

fun sample_utf8_encode :: "string \<Rightarrow> bytes" where
  "sample_utf8_encode [] = []"
| "sample_utf8_encode (c # cs) =
     (let n = (of_char c :: nat)
      in if n < 128 then byte_of_nat n # sample_utf8_encode cs
         else if n < 192 then 194 # byte_of_nat n # sample_utf8_encode cs
         else 195 # byte_of_nat (n - 64) # sample_utf8_encode cs)"

fun sample_utf8_decode :: "bytes \<Rightarrow> string option" where
  "sample_utf8_decode [] = Some []"
| "sample_utf8_decode [b] = (if unat b < 128 then Some [char_of (unat b)] else None)"
| "sample_utf8_decode (b # b' # bs) =
     (if unat b < 128 then map_option ((#) (char_of (unat b))) (sample_utf8_decode (b' # bs))
      else if b = 194 \<and> 128 \<le> unat b' \<and> unat b' < 192
      then map_option ((#) (char_of (unat b'))) (sample_utf8_decode bs)
      else if b = 195 \<and> 128 \<le> unat b' \<and> unat b' < 192
      then map_option ((#) (char_of (unat b' + 64))) (sample_utf8_decode bs)
      else None)"

fun sample_b64encode :: "bytes \<Rightarrow> bytes" where
  "sample_b64encode [] = []"
| "sample_b64encode (b # bs) =
     byte_of_nat (65 + unat b div 16) # byte_of_nat (65 + unat b mod 16) # sample_b64encode bs"

fun sample_b64decode :: "bytes \<Rightarrow> bytes option" where
  "sample_b64decode [] = Some []"
| "sample_b64decode [x] = None"
| "sample_b64decode (x # y # r) =
     (if 65 \<le> unat x \<and> unat x < 81 \<and> 65 \<le> unat y \<and> unat y < 81
      then map_option ((#) (byte_of_nat (16 * (unat x - 65) + (unat y - 65)))) (sample_b64decode r)
      else None)"

definition frame :: "string \<Rightarrow> string" where
  "frame s = replicate (length s) (CHR ''#'') @ CHR '':'' # s"

definition unframe :: "string \<Rightarrow> (string \<times> string) option" where
  "unframe t =
     (let n = length (takeWhile (\<lambda>c. c = CHR ''#'') t)
      in (case drop n t of
            [] \<Rightarrow> None
          | c # r \<Rightarrow> if c = CHR '':'' \<and> n \<le> length r then Some (take n r, drop n r) else None))"

definition sample_json_dumps :: "pyval \<Rightarrow> string" where
  "sample_json_dumps v =
     (case v of
        VDict [(k1, VDict [(k2, VStr c), (k3, VStr t), (k4, VStr k), (k5, VStr x)]), (k6, VStr s)] \<Rightarrow>
          (if v = data_package (metadata_dict c t k) s then frame c @ frame t @ frame k @ s
           else ''null'')
      | _ \<Rightarrow> ''null'')"

definition sample_json_loads :: "string \<Rightarrow> pyval option" where
  "sample_json_loads t =
     (case unframe t of
        None \<Rightarrow> None
      | Some (c, t1) \<Rightarrow>
          (case unframe t1 of
             None \<Rightarrow> None
           | Some (a, t2) \<Rightarrow>
               (case unframe t2 of
                  None \<Rightarrow> None
                | Some (k, s) \<Rightarrow> Some (data_package (metadata_dict c a k) s))))"

definition sample_mac :: "bytes \<Rightarrow> bytes \<Rightarrow> byte" where
  "sample_mac k m = sum_list k + sum_list m"

definition sample_gcm_encrypt :: "bytes \<Rightarrow> bytes \<Rightarrow> bytes \<Rightarrow> bytes \<times> bytes" where
  "sample_gcm_encrypt k v pt =
     (let ct = map (\<lambda>b. b + 1) pt in (ct, replicate 15 0 @ [sample_mac k (v @ ct)]))"

definition sample_gcm_decrypt :: "bytes \<Rightarrow> bytes \<Rightarrow> bytes \<Rightarrow> bytes \<Rightarrow> gcm_failure + bytes" where
  "sample_gcm_decrypt k v tag ct =
     (if length v < 8 \<or> 128 < length v \<or> length tag < 16 then Inl BadParameters
      else if tag = replicate 15 0 @ [sample_mac k (v @ ct)] then Inr (map (\<lambda>b. b - 1) ct)
      else Inl InvalidTag)"

definition sample_prims :: prims where
  "sample_prims =
     \<lparr>utf8_encode = (\<lambda>s. Some (sample_utf8_encode s)),
      utf8_decode = sample_utf8_decode,
      b64encode = sample_b64encode,
      b64decode = sample_b64decode,
      json_dumps = sample_json_dumps,
      json_loads = sample_json_loads,
      pbkdf2_hmac_sha256 = (\<lambda>salt n len km. replicate len (sample_mac salt km)),
      hmac_sha256 = (\<lambda>k m. replicate 31 0 @ [sample_mac k m]),
      gcm_encrypt = sample_gcm_encrypt,
      gcm_decrypt = sample_gcm_decrypt,
      py_repr = (\<lambda>v. ''[...]'')\<rparr>"

text \<open>
  The parts of a decoded envelope that \<^verbatim>\<open>decrypt_field\<close> compares: the bytes the HMAC is
  computed over (\<^verbatim>\<open>iv + encrypted_data + auth_tag\<close>) and the stored digest.
\<close>

definition authenticated_bytes :: "bytes \<Rightarrow> bytes" where
  "authenticated_bytes combined =
     py_slice None (Some 12) combined @ py_slice (Some 12) (Some (- 48)) combined
       @ py_slice (Some (- 48)) (Some (- 32)) combined"

definition stored_hmac :: "bytes \<Rightarrow> bytes" where
  "stored_hmac combined = py_slice (Some (- 32)) None combined"

text \<open>
  The value the loop of \<^verbatim>\<open>auto_decrypt_user_data\<close> stores under a field: the decrypted
  value of a sensitive non-empty string, the sentinel when its decryption fails, the
  value itself otherwise.
\<close>

definition decrypted_item :: "prims \<Rightarrow> encryptor \<Rightarrow> string \<Rightarrow> pyval \<Rightarrow> pyval" where
  "decrypted_item P enc field val =
     (if field \<in> set ENCRYPTED_FIELDS \<and> truthy val \<and> is_str val
      then (case decrypt_field P enc (the_str val) of
              Inr (decrypted_value, category) \<Rightarrow> decrypted_value
            | Inl e \<Rightarrow> DECRYPTION_ERROR)
      else val)"

definition sample_key :: string where
  "sample_key = ''0123456789abcdef0123456789abcdef''"

definition sample_encryptor :: encryptor where
  "sample_encryptor =
     \<lparr>master_key = sample_utf8_encode sample_key,
      key_rotation_days = 90,
      encryption_key =
        replicate 32 (sample_mac (ascii ''encryption_salt'') (sample_utf8_encode sample_key)),
      auth_key =
        replicate 32 (sample_mac (ascii ''authentication_salt'') (sample_utf8_encode sample_key))\<rparr>"

definition sample_env :: field_env where
  "sample_env =
     \<lparr>iv = [1, 2, 3, 4, 5, 6, 7, 8, 9, 10, 11, 12],
      encrypted_at = ''2026-01-01T00:00:00'',
      days_since_epoch = 2192\<rparr>"

definition sample_record_env :: record_env where
  "sample_record_env =
     \<lparr>field_envs = (\<lambda>i. sample_env), stamp_days = 2192, stamp_at = ''2026-01-01T00:00:01''\<rparr>"

section \<open>Properties\<close>

subsection \<open>The sample primitives meet the contracts\<close>

lemma unat_byte_of_nat: "n < 256 \<Longrightarrow> unat (byte_of_nat n) = n"
  by (simp add: byte_of_nat_def unat_of_nat)

lemma byte_of_nat_unat: "byte_of_nat (unat b) = b"
  by (simp add: byte_of_nat_def)

lemma unat_byte_less: "unat (b :: byte) < 256"
  using unsigned_less [of b, where ?'a = nat] by simp

lemma sample_utf8_encode_low:
  "unat b < 128 \<Longrightarrow> sample_utf8_encode (char_of (unat b) # r) = b # sample_utf8_encode r"
  by (simp add: Let_def byte_of_nat_unat)

lemma sample_utf8_encode_mid:
  "128 \<le> unat b \<Longrightarrow> unat b < 192 \<Longrightarrow>
   sample_utf8_encode (char_of (unat b) # r) = 194 # b # sample_utf8_encode r"
  by (simp add: Let_def byte_of_nat_unat)

lemma sample_utf8_encode_high:
  "128 \<le> unat b \<Longrightarrow> unat b < 192 \<Longrightarrow>
   sample_utf8_encode (char_of (unat b + 64) # r) = 195 # b # sample_utf8_encode r"
  by (simp add: Let_def byte_of_nat_unat)

lemma sample_utf8_decode_low:
  "unat b < 128 \<Longrightarrow>
   sample_utf8_decode (b # bs) = map_option ((#) (char_of (unat b))) (sample_utf8_decode bs)"
  by (cases bs) simp_all

lemma sample_utf8_roundtrip: "sample_utf8_decode (sample_utf8_encode s) = Some s"
proof (induction s)
  case Nil
  show ?case by simp
next
  case (Cons c cs)
  let ?n = "of_char c :: nat"
  have lt: "?n < 256" by (rule nat_of_char_less_256)
  have u: "unat (byte_of_nat ?n) = ?n" using lt by (rule unat_byte_of_nat)
  consider "?n < 128" | "128 \<le> ?n" "?n < 192" | "192 \<le> ?n" by linarith
  then show ?case
  proof cases
    case 1
    then show ?thesis
      using Cons.IH u by (simp add: Let_def sample_utf8_decode_low)
  next
    case 2
    then show ?thesis
      using Cons.IH u by (simp add: Let_def)
  next
    case 3
    have "?n - 64 < 256" using lt by (rule less_imp_diff_less)
    then have u': "unat (byte_of_nat (?n - 64)) = ?n - 64"
      by (rule unat_byte_of_nat)
    have "?n - 64 + 64 = ?n" using 3 by simp
    then have c: "char_of (?n - 64 + 64) = c" by simp
    have rng: "128 \<le> ?n - 64 \<and> ?n - 64 < 192" using 3 lt by linarith
    from 3 show ?thesis
      using Cons.IH u' c rng by (simp add: Let_def)
  qed
qed

lemma sample_utf8_unique: "sample_utf8_decode b = Some s \<Longrightarrow> sample_utf8_encode s = b"
proof (induction b arbitrary: s rule: sample_utf8_decode.induct)
  case 1
  then show ?case by simp
next
  case (2 b)
  from "2.prems" have lo: "unat b < 128" and s: "s = [char_of (unat b)]"
    by (simp_all split: if_splits)
  show ?case unfolding s using sample_utf8_encode_low [OF lo, of "[]"] by simp
next
  case (3 b b1 bs)
  show ?case
  proof (cases "unat b < 128")
    case True
    with "3.prems" obtain r where r: "sample_utf8_decode (b1 # bs) = Some r"
      and s: "s = char_of (unat b) # r"
      by (cases "sample_utf8_decode (b1 # bs)") simp_all
    have "sample_utf8_encode r = b1 # bs" using "3.IH"(1) [OF True r] .
    then show ?thesis unfolding s using sample_utf8_encode_low [OF True, of r] by simp
  next
    case False
    show ?thesis
    proof (cases "b = 194 \<and> 128 \<le> unat b1 \<and> unat b1 < 192")
      case mid: True
      with "3.prems" False obtain r where r: "sample_utf8_decode bs = Some r"
        and s: "s = char_of (unat b1) # r"
        by (cases "sample_utf8_decode bs") simp_all
      have ih: "sample_utf8_encode r = bs" using "3.IH"(2) [OF False mid r] .
      show ?thesis unfolding s using sample_utf8_encode_mid [of b1 r] mid ih by simp
    next
      case nomid: False
      have high: "b = 195 \<and> 128 \<le> unat b1 \<and> unat b1 < 192"
        using "3.prems" False nomid by (simp split: if_splits)
      with "3.prems" False nomid obtain r where r: "sample_utf8_decode bs = Some r"
        and s: "s = char_of (unat b1 + 64) # r"
        by (cases "sample_utf8_decode bs") simp_all
      have ih: "sample_utf8_encode r = bs" using "3.IH"(3) [OF False nomid high r] .
      show ?thesis unfolding s using sample_utf8_encode_high [of b1 r] high ih by simp
    qed
  qed
qed

lemma sample_b64_roundtrip: "sample_b64decode (sample_b64encode bs) = Some bs"
proof (induction bs)
  case Nil
  show ?case by simp
next
  case (Cons b bs)
  have lt: "unat b < 256" by (rule unat_byte_less)
  have u1: "unat (byte_of_nat (65 + unat b div 16)) = 65 + unat b div 16"
    using lt by (simp add: unat_byte_of_nat)
  have u2: "unat (byte_of_nat (65 + unat b mod 16)) = 65 + unat b mod 16"
    by (simp add: unat_byte_of_nat)
  have d: "unat b div 16 < 16" using lt by simp
  show ?case using Cons.IH u1 u2 d by (simp add: byte_of_nat_unat)
qed

lemma sample_utf8_decode_ascii:
  "\<forall>b \<in> set bs. unat b < 128 \<Longrightarrow> sample_utf8_decode bs = Some (map (\<lambda>b. char_of (unat b)) bs)"
  by (induction bs rule: sample_utf8_decode.induct) auto

lemma sample_b64encode_ascii: "\<forall>x \<in> set (sample_b64encode bs). unat x < 128"
proof (induction bs)
  case Nil
  show ?case by simp
next
  case (Cons b bs)
  have lt: "unat b < 256" by (rule unat_byte_less)
  have u1: "unat (byte_of_nat (65 + unat b div 16)) = 65 + unat b div 16"
    using lt by (simp add: unat_byte_of_nat)
  have u2: "unat (byte_of_nat (65 + unat b mod 16)) = 65 + unat b mod 16"
    by (simp add: unat_byte_of_nat)
  have d: "unat b div 16 < 16" using lt by simp
  show ?case using Cons.IH u1 u2 d by simp
qed

lemma takeWhile_hashes:
  "takeWhile (\<lambda>c. c = CHR ''#'') (replicate n (CHR ''#'') @ CHR '':'' # t) = replicate n (CHR ''#'')"
  by (induction n) simp_all

lemma unframe_frame: "unframe (frame s @ r) = Some (s, r)"
proof -
  have tw: "takeWhile (\<lambda>c. c = CHR ''#'') (replicate (length s) (CHR ''#'') @ CHR '':'' # s @ r)
            = replicate (length s) (CHR ''#'')"
    by (rule takeWhile_hashes)
  show ?thesis by (simp add: unframe_def frame_def tw Let_def)
qed

lemma sample_json_roundtrip:
  "sample_json_loads (sample_json_dumps (data_package (metadata_dict c t k) s))
   = Some (data_package (metadata_dict c t k) s)"
proof -
  have d: "sample_json_dumps (data_package (metadata_dict c t k) s) = frame c @ frame t @ frame k @ s"
    by (simp add: sample_json_dumps_def data_package_def metadata_dict_def)
  have u3: "unframe (frame k @ s) = Some (k, s)" by (rule unframe_frame)
  have u2: "unframe (frame t @ frame k @ s) = Some (t, frame k @ s)" by (rule unframe_frame)
  have u1: "unframe (frame c @ frame t @ frame k @ s) = Some (c, frame t @ frame k @ s)"
    by (rule unframe_frame)
  show ?thesis by (simp add: d sample_json_loads_def u1 u2 u3)
qed

lemma sample_codec_ok: "codec_ok sample_prims"
  by (auto simp: codec_ok_def sample_prims_def sample_utf8_roundtrip dest: sample_utf8_unique)

lemma sample_base64_ok: "base64_ok sample_prims"
proof -
  have a: "sample_utf8_decode (sample_b64encode bs) \<noteq> None" for bs
    using sample_utf8_decode_ascii [OF sample_b64encode_ascii] by simp
  have b: "bs \<noteq> [] \<Longrightarrow> sample_b64encode bs \<noteq> []" for bs by (cases bs) auto
  show ?thesis
    by (simp add: base64_ok_def sample_prims_def sample_b64_roundtrip a b)
qed

lemma sample_json_ok: "json_ok sample_prims"
  by (simp add: json_ok_def sample_prims_def sample_json_roundtrip)
     (simp add: sample_json_loads_def unframe_def)

lemma sample_kdf_ok: "kdf_ok sample_prims"
  by (simp add: kdf_ok_def sample_prims_def)

lemma sample_hmac_ok: "hmac_ok sample_prims"
  by (simp add: hmac_ok_def sample_prims_def)

lemma sample_gcm_ok: "gcm_ok sample_prims"
  by (auto simp: gcm_ok_def sample_prims_def sample_gcm_encrypt_def sample_gcm_decrypt_def
      Let_def o_def split: if_splits)

lemma sample_prims_ok: "prims_ok sample_prims"
  by (simp add: prims_ok_def sample_codec_ok sample_base64_ok sample_json_ok sample_kdf_ok
      sample_hmac_ok sample_gcm_ok)

subsection \<open>Slices\<close>

lemma py_slice_first: "py_slice None (Some 12) xs = take 12 xs"
  by (simp add: py_slice_def slice_index_def min_def Let_def)

lemma py_slice_tag: "py_slice (Some (- 48)) (Some (- 32)) xs = drop (length xs - 48) (take (length xs - 32) xs)"
  by (simp add: py_slice_def slice_index_def nat_diff_distrib' Let_def)

lemma py_slice_last: "py_slice (Some (- 32)) None xs = drop (length xs - 32) xs"
  by (simp add: py_slice_def slice_index_def nat_diff_distrib' Let_def)

lemma py_slice_middle: "py_slice (Some 12) (Some (- 48)) xs = drop 12 (take (length xs - 48) xs)"
  by (cases "length xs \<le> 12") (simp_all add: py_slice_def slice_index_def nat_diff_distrib' min_def Let_def)

lemmas py_slices = py_slice_first py_slice_tag py_slice_last py_slice_middle

lemma slices_of_envelope:
  assumes "length v = 12" "length tag = 16" "length mac = 32"
  shows "py_slice None (Some 12) (v @ ct @ tag @ mac) = v"
    and "py_slice (Some 12) (Some (- 48)) (v @ ct @ tag @ mac) = ct"
    and "py_slice (Some (- 48)) (Some (- 32)) (v @ ct @ tag @ mac) = tag"
    and "py_slice (Some (- 32)) None (v @ ct @ tag @ mac) = mac"
  using assms by (simp_all add: py_slices)

lemma authenticated_bytes_long:
  assumes "60 \<le> length xs"
  shows "authenticated_bytes xs = take (length xs - 32) xs"
proof -
  let ?n = "length xs"
  have a: "take 12 xs @ drop 12 (take (?n - 48) xs) = take (?n - 48) xs"
  proof -
    have "12 \<le> ?n - 48" using assms by linarith
    then have "take 12 (take (?n - 48) xs) = take 12 xs" by (simp add: min_absorb1)
    then show ?thesis using append_take_drop_id [of 12 "take (?n - 48) xs"] by simp
  qed
  have b: "take (?n - 48) xs @ drop (?n - 48) (take (?n - 32) xs) = take (?n - 32) xs"
  proof -
    have "?n - 48 \<le> ?n - 32" by linarith
    then have "take (?n - 48) (take (?n - 32) xs) = take (?n - 48) xs" by (simp add: min_absorb1)
    then show ?thesis using append_take_drop_id [of "?n - 48" "take (?n - 32) xs"] by simp
  qed
  have "authenticated_bytes xs
        = (take 12 xs @ drop 12 (take (?n - 48) xs)) @ drop (?n - 48) (take (?n - 32) xs)"
    by (simp add: authenticated_bytes_def py_slices)
  then show ?thesis by (simp only: a b)
qed

lemma envelope_parts:
  "authenticated_bytes xs @ stored_hmac xs = xs" if "60 \<le> length xs"
  using that by (simp add: authenticated_bytes_long stored_hmac_def py_slice_last)

subsection \<open>The stages of decryption\<close>

lemma decrypt_field_run_decoded:
  assumes "encrypted_text \<noteq> []" "utf8_encode P encrypted_text = Some raw"
    "b64decode P raw = Some combined"
  shows "decrypt_field_run P enc encrypted_text =
     (if hmac_sha256 P (auth_key enc) (authenticated_bytes combined) \<noteq> stored_hmac combined
      then ([Base64Decode, HmacCompute],
            Inl (SecurityError ''Data integrity check failed - possible tampering''))
      else
        (case gcm_decrypt P (encryption_key enc) (py_slice None (Some 12) combined)
                (py_slice (Some (- 48)) (Some (- 32)) combined)
                (py_slice (Some 12) (Some (- 48)) combined) of
           Inl InvalidTag \<Rightarrow>
             ([Base64Decode, HmacCompute, AeadDecrypt],
              Inl (SecurityError ''Data authentication failed''))
         | Inl BadParameters \<Rightarrow>
             ([Base64Decode, HmacCompute, AeadDecrypt], Inl (DecryptionError ValueError))
         | Inr decrypted_json \<Rightarrow>
             (case utf8_decode P decrypted_json of
                None \<Rightarrow>
                  ([Base64Decode, HmacCompute, AeadDecrypt],
                   Inl (DecryptionError UnicodeDecodeError))
              | Some json_text \<Rightarrow>
                  (case json_loads P json_text of
                     None \<Rightarrow>
                       ([Base64Decode, HmacCompute, AeadDecrypt, JsonLoads],
                        Inl (DecryptionError JSONDecodeError))
                   | Some pkg \<Rightarrow>
                       ([Base64Decode, HmacCompute, AeadDecrypt, JsonLoads],
                        (case read_package pkg of
                           Inl e \<Rightarrow> Inl (DecryptionError e)
                         | Inr r \<Rightarrow> Inr r))))))"
  using assms
  by (simp add: decrypt_field_run_def authenticated_bytes_def stored_hmac_def Let_def)

lemma decrypt_field_errors:
  assumes "decrypt_field P enc t = Inl e"
  shows "(\<exists>x. e = DecryptionError x) \<or> (\<exists>m. e = SecurityError m)"
  using assms
  by (auto simp: decrypt_field_def decrypt_field_run_def Let_def
      split: if_splits option.splits sum.splits gcm_failure.splits)

lemma encrypt_field_errors:
  assumes "encrypt_field P enc env s c = Inl e"
  shows "\<exists>x. e = EncryptionError x"
  using assms
  by (auto simp: encrypt_field_def Let_def split: if_splits option.splits sum.splits prod.splits)

subsection \<open>Contracts of the primitives, one by one\<close>

lemma utf8_decode_encode:
  "prims_ok P \<Longrightarrow> utf8_encode P s = Some b \<Longrightarrow> utf8_decode P b = Some s"
  unfolding prims_ok_def codec_ok_def by blast

lemma utf8_encode_decode:
  "prims_ok P \<Longrightarrow> utf8_decode P b = Some s \<Longrightarrow> utf8_encode P s = Some b"
  unfolding prims_ok_def codec_ok_def by blast

lemma utf8_decode_empty: "prims_ok P \<Longrightarrow> utf8_decode P [] = Some []"
  unfolding prims_ok_def codec_ok_def by blast

lemma b64decode_encode: "prims_ok P \<Longrightarrow> b64decode P (b64encode P bs) = Some bs"
  unfolding prims_ok_def base64_ok_def by blast

lemma b64encode_text: "prims_ok P \<Longrightarrow> \<exists>t. utf8_decode P (b64encode P bs) = Some t"
  unfolding prims_ok_def base64_ok_def by blast

lemma b64encode_nonempty: "prims_ok P \<Longrightarrow> bs \<noteq> [] \<Longrightarrow> b64encode P bs \<noteq> []"
  unfolding prims_ok_def base64_ok_def by blast

lemma json_loads_dumps:
  "prims_ok P \<Longrightarrow>
   json_loads P (json_dumps P (data_package (metadata_dict c t k) s))
     = Some (data_package (metadata_dict c t k) s)"
  unfolding prims_ok_def json_ok_def by blast

lemma json_loads_empty: "prims_ok P \<Longrightarrow> json_loads P [] = None"
  unfolding prims_ok_def json_ok_def by blast

lemma pbkdf2_length: "prims_ok P \<Longrightarrow> length (pbkdf2_hmac_sha256 P salt n len km) = len"
  unfolding prims_ok_def kdf_ok_def by blast

lemma hmac_length: "prims_ok P \<Longrightarrow> length (hmac_sha256 P k m) = 32"
  unfolding prims_ok_def hmac_ok_def by blast

lemma gcm_decrypt_encrypt:
  "prims_ok P \<Longrightarrow> length k = 32 \<Longrightarrow> length v = 12 \<Longrightarrow> gcm_encrypt P k v pt = (ct, tag) \<Longrightarrow>
   length tag = 16 \<and> gcm_decrypt P k v tag ct = Inr pt"
  unfolding prims_ok_def gcm_ok_def by blast

lemma gcm_decrypt_length:
  "prims_ok P \<Longrightarrow> gcm_decrypt P k v tag ct = Inr pt \<Longrightarrow> length pt = length ct"
  unfolding prims_ok_def gcm_ok_def by blast

subsection \<open>Short-circuits and the order of verification\<close>

lemma init_sample_encryptor: "init sample_prims sample_key 90 = Inr sample_encryptor"
  by (simp add: init_def sample_key_def sample_prims_def derive_keys_def sample_encryptor_def)

text \<open>
  Claim C9. For every category, \<^verbatim>\<open>encrypt_field("", c)\<close> returns the empty string without
  producing an envelope or raising, and \<^verbatim>\<open>decrypt_field("")\<close> returns the pair
  \<^verbatim>\<open>("", DataCategory.OTHER)\<close> without raising; no library operation is performed. This holds
  for any primitives, any encryptor and any environment.
\<close>

theorem empty_field_short_circuit:
  "encrypt_field P enc env [] c = Inr [] \<and>
   decrypt_field P enc [] = Inr (VStr [], OTHER) \<and>
   decrypt_field_ops P enc [] = []"
  by (simp add: encrypt_field_def decrypt_field_def decrypt_field_ops_def decrypt_field_run_def)

text \<open>
  Claim C4. The HMAC over \<^verbatim>\<open>iv + encrypted_data + auth_tag\<close> is verified before any AES-GCM
  decryption: for every non-empty input that decodes and whose recomputed HMAC differs
  from the stored digest, \<^verbatim>\<open>decrypt_field\<close> raises the \<^verbatim>\<open>SecurityError\<close> of the integrity
  check, and the operations performed are the base64 decoding and the HMAC computation
  only: the AEAD decryption is not executed.
\<close>

theorem hmac_verified_before_decryption:
  assumes "encrypted_text \<noteq> []"
    and "utf8_encode P encrypted_text = Some raw"
    and "b64decode P raw = Some combined"
    and "hmac_sha256 P (auth_key enc) (authenticated_bytes combined) \<noteq> stored_hmac combined"
  shows "decrypt_field P enc encrypted_text
           = Inl (SecurityError ''Data integrity check failed - possible tampering'') \<and>
         decrypt_field_ops P enc encrypted_text = [Base64Decode, HmacCompute] \<and>
         AeadDecrypt \<notin> set (decrypt_field_ops P enc encrypted_text)"
  using decrypt_field_run_decoded [OF assms(1-3), of enc] assms(4)
  by (simp add: decrypt_field_def decrypt_field_ops_def)

lemma sample_short_decoded:
  "utf8_encode sample_prims ''AB'' = Some [65, 66] \<and> b64decode sample_prims [65, 66] = Some [1]"
  by (simp add: sample_prims_def byte_of_nat_def)

lemma sample_short_mismatch:
  "hmac_sha256 sample_prims (auth_key sample_encryptor) (authenticated_bytes [1]) \<noteq> stored_hmac [1]"
  by (simp add: sample_prims_def stored_hmac_def py_slices)

text \<open>
  Witness for C4: on the sample primitives the text \<open>AB\<close> decodes to one byte, the HMAC
  does not match, and the theorem gives the \<^verbatim>\<open>SecurityError\<close> without AEAD decryption.
\<close>

theorem hmac_verified_before_decryption_witness:
  "''AB'' \<noteq> [] \<and>
   utf8_encode sample_prims ''AB'' = Some [65, 66] \<and>
   b64decode sample_prims [65, 66] = Some [1] \<and>
   hmac_sha256 sample_prims (auth_key sample_encryptor) (authenticated_bytes [1]) \<noteq> stored_hmac [1] \<and>
   decrypt_field sample_prims sample_encryptor ''AB''
     = Inl (SecurityError ''Data integrity check failed - possible tampering'') \<and>
   AeadDecrypt \<notin> set (decrypt_field_ops sample_prims sample_encryptor ''AB'')"
proof -
  have ne: "''AB'' \<noteq> []" by simp
  note d = sample_short_decoded
  show ?thesis
    using hmac_verified_before_decryption
      [OF ne conjunct1 [OF d] conjunct2 [OF d] sample_short_mismatch]
    using d sample_short_mismatch by simp
qed

text \<open>
  Claim C3 says that an input decoding to fewer than 60 bytes is rejected without any
  HMAC computation. The code has no length check; counterexample: on an input that
  decodes to one byte, the HMAC computation is among the operations performed.
\<close>

theorem short_envelope_hmac_computed:
  "utf8_encode sample_prims ''AB'' = Some [65, 66] \<and>
   b64decode sample_prims [65, 66] = Some [1] \<and>
   length [1 :: byte] < 60 \<and>
   HmacCompute \<in> set (decrypt_field_ops sample_prims sample_encryptor ''AB'')"
proof -
  have ne: "''AB'' \<noteq> []" by simp
  note d = sample_short_decoded
  have "decrypt_field_ops sample_prims sample_encryptor ''AB'' = [Base64Decode, HmacCompute]"
    using decrypt_field_run_decoded [OF ne conjunct1 [OF d] conjunct2 [OF d], of sample_encryptor]
      sample_short_mismatch
    by (simp add: decrypt_field_ops_def)
  then show ?thesis using d by simp
qed

text \<open>
  Claim C3, amended. Every non-empty input whose decoded length is below 60 bytes is
  rejected: \<^verbatim>\<open>decrypt_field\<close> raises \<^verbatim>\<open>SecurityError\<close> or \<^verbatim>\<open>DecryptionError\<close> and returns no
  value. There is no length check: the first two operations are always the base64
  decoding and the HMAC computation over the slices. Below 32 decoded bytes the stored
  digest is too short to match, and the error is the \<^verbatim>\<open>SecurityError\<close> of the integrity
  check.
\<close>

theorem short_envelope_rejected:
  assumes "prims_ok P"
    and "encrypted_text \<noteq> []"
    and "utf8_encode P encrypted_text = Some raw"
    and "b64decode P raw = Some combined"
    and "length combined < 60"
  shows "((\<exists>m. decrypt_field P enc encrypted_text = Inl (SecurityError m)) \<or>
          (\<exists>x. decrypt_field P enc encrypted_text = Inl (DecryptionError x))) \<and>
         take 2 (decrypt_field_ops P enc encrypted_text) = [Base64Decode, HmacCompute] \<and>
         (length combined < 32 \<longrightarrow>
            decrypt_field P enc encrypted_text
              = Inl (SecurityError ''Data integrity check failed - possible tampering''))"
proof -
  note run = decrypt_field_run_decoded [OF assms(2-4), of enc]
  have hm: "length (hmac_sha256 P (auth_key enc) (authenticated_bytes combined)) = 32"
    using assms(1) by (rule hmac_length)
  have ct: "py_slice (Some 12) (Some (- 48)) combined = []"
    using assms(5) by (simp add: py_slice_middle)
  have empty: "gcm_decrypt P k v tag [] = Inr pt \<Longrightarrow> pt = []" for k v tag pt
    using gcm_decrypt_length [OF assms(1), of k v tag "[]" pt] by simp
  have dec: "utf8_decode P [] = Some []" using assms(1) by (rule utf8_decode_empty)
  have js: "json_loads P [] = None" using assms(1) by (rule json_loads_empty)
  have short: "hmac_sha256 P (auth_key enc) (authenticated_bytes combined) \<noteq> stored_hmac combined"
    if "length combined < 32"
  proof
    assume "hmac_sha256 P (auth_key enc) (authenticated_bytes combined) = stored_hmac combined"
    then have "length (stored_hmac combined) = 32" using hm by simp
    then show False using that by (simp add: stored_hmac_def py_slice_last)
  qed
  show ?thesis
  proof (cases "hmac_sha256 P (auth_key enc) (authenticated_bytes combined) = stored_hmac combined")
    case False
    then show ?thesis using run by (simp add: decrypt_field_def decrypt_field_ops_def)
  next
    case True
    then have long: "\<not> length combined < 32" using short by blast
    show ?thesis
    proof (cases "gcm_decrypt P (encryption_key enc) (py_slice None (Some 12) combined)
                    (py_slice (Some (- 48)) (Some (- 32)) combined) []")
      case (Inl f)
      then show ?thesis
        using run True ct long
        by (cases f) (simp_all add: decrypt_field_def decrypt_field_ops_def)
    next
      case (Inr pt)
      then have "pt = []" by (rule empty)
      then show ?thesis
        using run True ct long Inr dec js
        by (simp add: decrypt_field_def decrypt_field_ops_def)
    qed
  qed
qed

text \<open>
  Witness for the amended C3, on the one-byte input of the counterexample.
\<close>

theorem short_envelope_rejected_witness:
  "prims_ok sample_prims \<and> ''AB'' \<noteq> [] \<and>
   utf8_encode sample_prims ''AB'' = Some [65, 66] \<and>
   b64decode sample_prims [65, 66] = Some [1] \<and>
   length [1 :: byte] < 60 \<and> length [1 :: byte] < 32 \<and>
   decrypt_field sample_prims sample_encryptor ''AB''
     = Inl (SecurityError ''Data integrity check failed - possible tampering'') \<and>
   take 2 (decrypt_field_ops sample_prims sample_encryptor ''AB'') = [Base64Decode, HmacCompute]"
proof -
  have ne: "''AB'' \<noteq> []" by simp
  have l: "length [1 :: byte] < 60" by simp
  note d = sample_short_decoded
  show ?thesis
    using short_envelope_rejected
      [OF sample_prims_ok ne conjunct1 [OF d] conjunct2 [OF d] l, of sample_encryptor]
    using sample_prims_ok d by simp
qed

subsection \<open>Construction and key derivation\<close>

text \<open>
  Claim C8. Key derivation is deterministic: two constructions from the same master
  secret (whatever the rotation period) yield the same encryption key and the same
  authentication key; the keys are the PBKDF2-HMAC-SHA256 values of the encoded master
  secret with 100000 iterations, 32 bytes each, under the salts \<^verbatim>\<open>encryption_salt\<close> and
  \<^verbatim>\<open>authentication_salt\<close>. Neither the random source nor the clock is an argument of
  \<open>init\<close> or \<open>derive_keys\<close>.
\<close>

theorem key_derivation_deterministic:
  assumes "kdf_ok P"
    and "init P key r1 = Inr e1"
    and "init P key r2 = Inr e2"
  shows "encryption_key e1 = encryption_key e2 \<and> auth_key e1 = auth_key e2 \<and>
         (encryption_key e1, auth_key e1) = derive_keys P (master_key e1) \<and>
         utf8_encode P key = Some (master_key e1) \<and>
         encryption_key e1
           = pbkdf2_hmac_sha256 P (ascii ''encryption_salt'') 100000 32 (master_key e1) \<and>
         auth_key e1
           = pbkdf2_hmac_sha256 P (ascii ''authentication_salt'') 100000 32 (master_key e1) \<and>
         length (encryption_key e1) = 32 \<and> length (auth_key e1) = 32"
  using assms
  by (auto simp: init_def derive_keys_def kdf_ok_def split: if_splits option.splits)

text \<open>
  Witness for C8: the sample key, constructed with rotation periods 90 and 30.
\<close>

theorem key_derivation_deterministic_witness:
  "kdf_ok sample_prims \<and>
   init sample_prims sample_key 90 = Inr sample_encryptor \<and>
   init sample_prims sample_key 30 = Inr (sample_encryptor\<lparr>key_rotation_days := 30\<rparr>) \<and>
   encryption_key sample_encryptor = encryption_key (sample_encryptor\<lparr>key_rotation_days := 30\<rparr>) \<and>
   auth_key sample_encryptor = auth_key (sample_encryptor\<lparr>key_rotation_days := 30\<rparr>) \<and>
   length (encryption_key sample_encryptor) = 32 \<and> length (auth_key sample_encryptor) = 32"
proof -
  have i2: "init sample_prims sample_key 30 = Inr (sample_encryptor\<lparr>key_rotation_days := 30\<rparr>)"
    by (simp add: init_def sample_key_def sample_prims_def derive_keys_def sample_encryptor_def)
  note t = key_derivation_deterministic [OF sample_kdf_ok init_sample_encryptor i2]
  from t have a: "encryption_key sample_encryptor
                    = encryption_key (sample_encryptor\<lparr>key_rotation_days := 30\<rparr>)"
    by (rule conjunct1)
  from t have b: "auth_key sample_encryptor = auth_key (sample_encryptor\<lparr>key_rotation_days := 30\<rparr>)"
    by blast
  from t have c: "length (encryption_key sample_encryptor) = 32" by blast
  from t have d: "length (auth_key sample_encryptor) = 32" by blast
  show ?thesis
    by (intro conjI sample_kdf_ok init_sample_encryptor i2 a b c d)
qed

text \<open>
  What the constructor checks is the number of characters of the key, before the key is
  encoded: any other count than 32 raises the built-in \<^verbatim>\<open>ValueError\<close>, and a key of 32
  characters that can be encoded is accepted, whatever the number of its bytes.
\<close>

lemma init_checks_characters:
  "(length key \<noteq> 32 \<longrightarrow> init P key rot = Inl (Builtin ValueError)) \<and>
   (length key = 32 \<and> utf8_encode P key = Some mk \<longrightarrow>
      (\<exists>enc. init P key rot = Inr enc \<and> master_key enc = mk))"
  by (simp add: init_def split: prod.splits)

text \<open>
  The check is made in the constructor only: \<^verbatim>\<open>encrypt_field\<close> and \<^verbatim>\<open>decrypt_field\<close> do not
  depend on the stored master key.
\<close>

lemma operations_ignore_master_key:
  "encrypt_field P (enc\<lparr>master_key := m\<rparr>) env s c = encrypt_field P enc env s c \<and>
   decrypt_field_run P (enc\<lparr>master_key := m\<rparr>) t = decrypt_field_run P enc t"
  by (simp add: encrypt_field_def decrypt_field_run_def create_metadata_def
      get_current_key_version_def split: prod.splits
      cong: option.case_cong sum.case_cong if_cong)

text \<open>
  Claim C7. Construction is to fail for every master secret whose length is not exactly
  32 bytes and to succeed for every master secret of exactly 32 bytes; the docstring of
  \<^verbatim>\<open>__init__\<close> (32 bytes) and the message of its \<^verbatim>\<open>ValueError\<close> (exactly 32 bytes) say the
  same. The code does otherwise on keys outside ASCII, since \<^verbatim>\<open>len(master_key)\<close> counts
  characters: the key of 32 characters U+00E9, whose UTF-8 encoding has 64 bytes (C3 A9
  each), is accepted and stored, and the key of 16 characters U+00E9, whose encoding has
  exactly 32 bytes, is refused.
\<close>

theorem master_key_length_counts_characters:
  "utf8_encode sample_prims (replicate 32 (CHR 0xE9)) = Some (concat (replicate 32 [195, 169])) \<and>
   length (concat (replicate 32 [195 :: byte, 169])) = 64 \<and>
   map_sum id master_key (init sample_prims (replicate 32 (CHR 0xE9)) 90)
     = Inr (concat (replicate 32 [195, 169])) \<and>
   utf8_encode sample_prims (replicate 16 (CHR 0xE9)) = Some (concat (replicate 16 [195, 169])) \<and>
   length (concat (replicate 16 [195 :: byte, 169])) = 32 \<and>
   init sample_prims (replicate 16 (CHR 0xE9)) 90 = Inl (Builtin ValueError)"
proof -
  have u: "sample_utf8_encode (replicate n (CHR 0xE9)) = concat (replicate n [195, 169])" for n
    by (induction n) (simp_all add: byte_of_nat_def)
  have e: "utf8_encode sample_prims k = Some (sample_utf8_encode k)" for k
    by (simp add: sample_prims_def)
  have l: "length (concat (replicate n [195 :: byte, 169])) = 2 * n" for n
    by (induction n) simp_all
  have a: "map_sum id master_key (init sample_prims (replicate 32 (CHR 0xE9)) 90)
             = Inr (concat (replicate 32 [195, 169]))"
    by (simp add: init_def e u split: prod.splits)
  have r: "init sample_prims (replicate 16 (CHR 0xE9)) 90 = Inl (Builtin ValueError)"
    by (simp add: init_def)
  show ?thesis using a r by (simp add: e u l)
qed

subsection \<open>Encryption of one field\<close>

lemma init_fields:
  assumes "prims_ok P" "init P key rot = Inr enc"
  shows "key_rotation_days enc = rot" "length (encryption_key enc) = 32"
    "length (auth_key enc) = 32"
  using assms
  by (auto simp: init_def derive_keys_def pbkdf2_length split: if_splits option.splits)

lemma create_metadata_ok:
  assumes "key_rotation_days enc \<noteq> 0"
  shows "create_metadata enc env c =
           Inr (metadata_dict (category_value c) (encrypted_at env)
                  (CHR ''v'' # str_int (days_since_epoch env div key_rotation_days enc)))"
  using assms by (simp add: create_metadata_def get_current_key_version_def)

lemma DataCategory_of_value: "DataCategory_of (VStr (category_value c)) = Inr c"
  by (cases c) (simp_all add: DataCategory_of_def all_categories_def)

lemma read_package_data_package:
  "read_package (data_package (metadata_dict (category_value c) t k) s) = Inr (VStr s, c)"
  by (simp add: read_package_def data_package_def metadata_dict_def py_get_def dict_item_def
      DataCategory_of_value)

lemma encrypt_field_unfold:
  assumes "s \<noteq> []"
    and "create_metadata enc env c = Inr md"
    and "utf8_encode P (json_dumps P (data_package md s)) = Some jb"
    and "gcm_encrypt P (encryption_key enc) (iv env) jb = (ct, tag)"
  shows "encrypt_field P enc env s c =
           (case utf8_decode P (b64encode P (iv env @ ct @ tag
                   @ hmac_sha256 P (auth_key enc) (iv env @ ct @ tag))) of
              None \<Rightarrow> Inl (EncryptionError UnicodeDecodeError)
            | Some t \<Rightarrow> Inr t)"
  using assms by (simp add: encrypt_field_def)

lemma encrypt_field_envelope:
  assumes ok: "prims_ok P"
    and ek: "length (encryption_key enc) = 32"
    and v: "length (iv env) = 12"
    and s: "s \<noteq> []"
    and e: "encrypt_field P enc env s c = Inr e"
  shows "\<exists>md jb ct tag.
           create_metadata enc env c = Inr md \<and>
           utf8_encode P (json_dumps P (data_package md s)) = Some jb \<and>
           gcm_encrypt P (encryption_key enc) (iv env) jb = (ct, tag) \<and>
           length tag = 16 \<and>
           gcm_decrypt P (encryption_key enc) (iv env) tag ct = Inr jb \<and>
           utf8_encode P e
             = Some (b64encode P (iv env @ ct @ tag
                       @ hmac_sha256 P (auth_key enc) (iv env @ ct @ tag))) \<and>
           e \<noteq> []"
proof -
  obtain md where md: "create_metadata enc env c = Inr md"
  proof (cases "create_metadata enc env c")
    case (Inl x)
    with e s show ?thesis by (simp add: encrypt_field_def)
  next
    case (Inr md)
    then show ?thesis by (rule that)
  qed
  obtain jb where jb: "utf8_encode P (json_dumps P (data_package md s)) = Some jb"
  proof (cases "utf8_encode P (json_dumps P (data_package md s))")
    case None
    with e s md show ?thesis by (simp add: encrypt_field_def)
  next
    case (Some jb)
    then show ?thesis by (rule that)
  qed
  obtain ct tag where g: "gcm_encrypt P (encryption_key enc) (iv env) jb = (ct, tag)"
    by (cases "gcm_encrypt P (encryption_key enc) (iv env) jb") blast
  let ?combined = "iv env @ ct @ tag @ hmac_sha256 P (auth_key enc) (iv env @ ct @ tag)"
  note u = encrypt_field_unfold [OF s md jb g]
  have t: "utf8_decode P (b64encode P ?combined) = Some e"
  proof (cases "utf8_decode P (b64encode P ?combined)")
    case None
    with u e show ?thesis by simp
  next
    case (Some t)
    with u e show ?thesis by simp
  qed
  have raw: "utf8_encode P e = Some (b64encode P ?combined)"
    using ok t by (rule utf8_encode_decode)
  have c: "?combined \<noteq> []" using v by (cases "iv env") simp_all
  have b: "b64encode P ?combined \<noteq> []" using ok c by (rule b64encode_nonempty)
  have em: "utf8_encode P [] = Some []"
    using ok utf8_decode_empty [OF ok] by (rule utf8_encode_decode)
  have ne: "e \<noteq> []"
  proof
    assume "e = []"
    then have "utf8_encode P [] = Some (b64encode P ?combined)" using raw by (simp only:)
    then have "Some [] = Some (b64encode P ?combined)" by (simp only: em)
    then show False using b by (simp only: option.inject) (simp only: not_False_eq_True simp_thms)
  qed
  note d = gcm_decrypt_encrypt [OF ok ek v g]
  have "create_metadata enc env c = Inr md \<and>
        utf8_encode P (json_dumps P (data_package md s)) = Some jb \<and>
        gcm_encrypt P (encryption_key enc) (iv env) jb = (ct, tag) \<and>
        length tag = 16 \<and>
        gcm_decrypt P (encryption_key enc) (iv env) tag ct = Inr jb \<and>
        utf8_encode P e = Some (b64encode P ?combined) \<and>
        e \<noteq> []"
    using md jb g d raw ne by (simp only: simp_thms)
  then show ?thesis by (intro exI)
qed

lemma encrypt_field_success:
  assumes ok: "prims_ok P"
    and s: "s \<noteq> []"
    and md: "create_metadata enc env c = Inr md"
    and jb: "utf8_encode P (json_dumps P (data_package md s)) \<noteq> None"
  shows "\<exists>e. encrypt_field P enc env s c = Inr e"
proof -
  from jb obtain b where b: "utf8_encode P (json_dumps P (data_package md s)) = Some b" by blast
  obtain ct tag where g: "gcm_encrypt P (encryption_key enc) (iv env) b = (ct, tag)"
    by (cases "gcm_encrypt P (encryption_key enc) (iv env) b") blast
  obtain t where t: "utf8_decode P (b64encode P (iv env @ ct @ tag
                       @ hmac_sha256 P (auth_key enc) (iv env @ ct @ tag))) = Some t"
    using b64encode_text [OF ok] by blast
  show ?thesis using s md b g t by (simp add: encrypt_field_def)
qed

lemma decrypt_envelope:
  assumes ok: "prims_ok P"
    and v: "length v = 12"
    and tag: "length tag = 16"
    and e: "e \<noteq> []"
    and raw: "utf8_encode P e
                = Some (b64encode P (v @ ct @ tag @ hmac_sha256 P (auth_key enc) (v @ ct @ tag)))"
    and g: "gcm_decrypt P (encryption_key enc) v tag ct = Inr jb"
    and j: "utf8_decode P jb = Some (json_dumps P (data_package (metadata_dict (category_value c) t k) s))"
  shows "decrypt_field P enc e = Inr (VStr s, c)"
proof -
  let ?mac = "hmac_sha256 P (auth_key enc) (v @ ct @ tag)"
  let ?combined = "v @ ct @ tag @ ?mac"
  have m: "length ?mac = 32" using ok by (rule hmac_length)
  note sl = slices_of_envelope [OF v tag m, of ct]
  have ab: "authenticated_bytes ?combined = v @ ct @ tag"
    by (simp only: authenticated_bytes_def sl)
  have sh: "stored_hmac ?combined = ?mac" by (simp only: stored_hmac_def sl)
  have "decrypt_field_run P enc e
        = ([Base64Decode, HmacCompute, AeadDecrypt, JsonLoads], Inr (VStr s, c))"
    unfolding decrypt_field_run_decoded [OF e raw b64decode_encode [OF ok]]
    by (simp add: ab sh sl g j json_loads_dumps [OF ok] read_package_data_package)
  then show ?thesis by (simp add: decrypt_field_def)
qed

lemma create_metadata_shape:
  assumes "create_metadata enc env c = Inr md"
  shows "\<exists>kv. md = metadata_dict (category_value c) (encrypted_at env) kv"
  using assms
  by (cases "get_current_key_version enc (days_since_epoch env)")
    (auto simp: create_metadata_def)

lemma decrypt_encrypted:
  assumes ok: "prims_ok P"
    and ek: "length (encryption_key enc) = 32"
    and v: "length (iv env) = 12"
    and s: "s \<noteq> []"
    and e: "encrypt_field P enc env s c = Inr e"
  shows "e \<noteq> [] \<and> decrypt_field P enc e = Inr (VStr s, c)"
proof -
  from encrypt_field_envelope [OF ok ek v s e]
  obtain md jb ct tag where
    md: "create_metadata enc env c = Inr md"
    and jb: "utf8_encode P (json_dumps P (data_package md s)) = Some jb"
    and tag: "length tag = 16"
    and g: "gcm_decrypt P (encryption_key enc) (iv env) tag ct = Inr jb"
    and raw: "utf8_encode P e
             = Some (b64encode P (iv env @ ct @ tag
                       @ hmac_sha256 P (auth_key enc) (iv env @ ct @ tag)))"
    and ne: "e \<noteq> []"
    by blast
  from create_metadata_shape [OF md] obtain kv where
    kv: "md = metadata_dict (category_value c) (encrypted_at env) kv"
    by blast
  have j: "utf8_decode P jb
           = Some (json_dumps P (data_package
                     (metadata_dict (category_value c) (encrypted_at env) kv) s))"
    using ok jb unfolding kv by (rule utf8_decode_encode)
  have "decrypt_field P enc e = Inr (VStr s, c)"
    using ok v tag ne raw g j by (rule decrypt_envelope)
  with ne show ?thesis by (rule conjI)
qed

text \<open>
  Claim C1. Round trip: for every non-empty string \<open>s\<close> and every category \<open>c\<close>,
  \<^verbatim>\<open>encrypt_field(s, c)\<close> returns an envelope and \<^verbatim>\<open>decrypt_field\<close> of that envelope returns
  \<open>(s, c)\<close>, for any 12-byte IV of the random source and any clock readings. The
  encryptor is one built by the constructor with a rotation period other than 0 (with
  0, \<^verbatim>\<open>_get_current_key_version\<close> divides by zero), the primitives meet their contracts, and
  the JSON text of the package can be encoded as UTF-8.
\<close>

theorem encrypt_decrypt_roundtrip:
  assumes "prims_ok P"
    and "init P key rot = Inr enc"
    and "rot \<noteq> 0"
    and "length (iv env) = 12"
    and "s \<noteq> []"
    and "\<And>md. create_metadata enc env c = Inr md \<Longrightarrow>
           utf8_encode P (json_dumps P (data_package md s)) \<noteq> None"
  shows "\<exists>e. encrypt_field P enc env s c = Inr e \<and> e \<noteq> [] \<and>
             decrypt_field P enc e = Inr (VStr s, c)"
proof -
  note f = init_fields [OF assms(1,2)]
  have r: "key_rotation_days enc \<noteq> 0" using f(1) assms(3) by simp
  note md = create_metadata_ok [OF r, of env c]
  have "utf8_encode P (json_dumps P (data_package
          (metadata_dict (category_value c) (encrypted_at env)
             (CHR ''v'' # str_int (days_since_epoch env div key_rotation_days enc))) s)) \<noteq> None"
    using md by (rule assms(6))
  with assms(1,5) md obtain e where e: "encrypt_field P enc env s c = Inr e"
    using encrypt_field_success by blast
  from decrypt_encrypted [OF assms(1) f(2) assms(4,5) e]
  have "e \<noteq> []" and "decrypt_field P enc e = Inr (VStr s, c)" by simp_all
  with e show ?thesis by blast
qed

lemma sample_env_iv: "length (iv sample_env) = 12"
  by (simp add: sample_env_def)

lemma sample_encodable: "utf8_encode sample_prims t \<noteq> None"
  by (simp add: sample_prims_def)

text \<open>
  Witness for C1: the sample encryptor and environment, the string \<open>Ivan\<close>, category FIO.
\<close>

theorem encrypt_decrypt_roundtrip_witness:
  "prims_ok sample_prims \<and> init sample_prims sample_key 90 = Inr sample_encryptor \<and>
   (90 :: int) \<noteq> 0 \<and> length (iv sample_env) = 12 \<and> ''Ivan'' \<noteq> [] \<and>
   (\<exists>e. encrypt_field sample_prims sample_encryptor sample_env ''Ivan'' FIO = Inr e \<and>
        decrypt_field sample_prims sample_encryptor e = Inr (VStr ''Ivan'', FIO))"
proof -
  have n: "(90 :: int) \<noteq> 0" and s: "''Ivan'' \<noteq> []" by simp_all
  from encrypt_decrypt_roundtrip
    [OF sample_prims_ok init_sample_encryptor n sample_env_iv s sample_encodable, of FIO]
  have "\<exists>e. encrypt_field sample_prims sample_encryptor sample_env ''Ivan'' FIO = Inr e \<and>
            decrypt_field sample_prims sample_encryptor e = Inr (VStr ''Ivan'', FIO)"
    by blast
  then show ?thesis using sample_prims_ok init_sample_encryptor sample_env_iv by simp
qed

subsection \<open>Tampering with an envelope\<close>

lemma envelope_text:
  assumes ok: "prims_ok P" and bs: "bs \<noteq> []"
    and t: "utf8_decode P (b64encode P bs) = Some t"
  shows "t \<noteq> []" and "utf8_encode P t = Some (b64encode P bs)"
proof -
  show raw: "utf8_encode P t = Some (b64encode P bs)" using ok t by (rule utf8_encode_decode)
  have b: "b64encode P bs \<noteq> []" using ok bs by (rule b64encode_nonempty)
  have em: "utf8_encode P [] = Some []"
    using ok utf8_decode_empty [OF ok] by (rule utf8_encode_decode)
  show "t \<noteq> []"
  proof
    assume "t = []"
    then have "utf8_encode P [] = Some (b64encode P bs)" using raw by (simp only:)
    then have "Some [] = Some (b64encode P bs)" by (simp only: em)
    then show False using b by (simp only: option.inject) (simp only: not_False_eq_True simp_thms)
  qed
qed

lemma decoded_envelope:
  assumes ok: "prims_ok P"
    and ek: "length (encryption_key enc) = 32"
    and v: "length (iv env) = 12"
    and s: "s \<noteq> []"
    and e: "encrypt_field P enc env s c = Inr e"
    and raw: "utf8_encode P e = Some raw"
    and comb: "b64decode P raw = Some combined"
  shows "60 \<le> length combined"
    and "stored_hmac combined = hmac_sha256 P (auth_key enc) (authenticated_bytes combined)"
proof -
  from encrypt_field_envelope [OF ok ek v s e] obtain ct tag where
    tag: "length tag = 16" and
    r: "utf8_encode P e
          = Some (b64encode P (iv env @ ct @ tag @ hmac_sha256 P (auth_key enc) (iv env @ ct @ tag)))"
    by blast
  let ?mac = "hmac_sha256 P (auth_key enc) (iv env @ ct @ tag)"
  have m: "length ?mac = 32" using ok by (rule hmac_length)
  have "raw = b64encode P (iv env @ ct @ tag @ ?mac)" using r raw by simp
  then have c: "combined = iv env @ ct @ tag @ ?mac"
    using comb b64decode_encode [OF ok, of "iv env @ ct @ tag @ ?mac"] by simp
  show "60 \<le> length combined" unfolding c using v tag m by simp
  note sl = slices_of_envelope [OF v tag m, of ct]
  have ab: "authenticated_bytes combined = iv env @ ct @ tag"
    unfolding c by (simp only: authenticated_bytes_def sl)
  have sh: "stored_hmac combined = ?mac" unfolding c by (simp only: stored_hmac_def sl)
  show "stored_hmac combined = hmac_sha256 P (auth_key enc) (authenticated_bytes combined)"
    by (simp only: ab sh)
qed

lemma tampered_parts:
  assumes len: "60 \<le> length combined" and i: "i < length combined" and b: "b \<noteq> combined ! i"
  shows "i < length combined - 32 \<Longrightarrow> stored_hmac (combined[i := b]) = stored_hmac combined"
    and "\<not> i < length combined - 32 \<Longrightarrow>
           authenticated_bytes (combined[i := b]) = authenticated_bytes combined \<and>
           stored_hmac (combined[i := b]) \<noteq> stored_hmac combined"
proof -
  let ?n = "length combined - 32"
  show "stored_hmac (combined[i := b]) = stored_hmac combined" if "i < ?n"
    using that by (simp add: stored_hmac_def py_slice_last)
  show "authenticated_bytes (combined[i := b]) = authenticated_bytes combined \<and>
        stored_hmac (combined[i := b]) \<noteq> stored_hmac combined" if h: "\<not> i < ?n"
  proof
    have l: "60 \<le> length (combined[i := b])" using len by simp
    from h have le: "?n \<le> i" by simp
    show "authenticated_bytes (combined[i := b]) = authenticated_bytes combined"
      using le by (simp add: authenticated_bytes_long [OF l] authenticated_bytes_long [OF len])
    have d: "drop ?n (combined[i := b]) = (drop ?n combined)[i - ?n := b]"
      using le by (rule drop_update_swap)
    have at: "drop ?n combined ! (i - ?n) = combined ! i" using le i by simp
    have il: "i - ?n < length (drop ?n combined)" using le i len by simp
    have "(drop ?n combined)[i - ?n := b] \<noteq> drop ?n combined"
    proof
      assume "(drop ?n combined)[i - ?n := b] = drop ?n combined"
      then have "(drop ?n combined)[i - ?n := b] ! (i - ?n) = drop ?n combined ! (i - ?n)"
        by simp
      then have "b = combined ! i" using il at by simp
      then show False using b by simp
    qed
    then show "stored_hmac (combined[i := b]) \<noteq> stored_hmac combined"
      using d by (simp add: stored_hmac_def py_slice_last)
  qed
qed

text \<open>
  Tampering with one byte of the decoded bytes of an envelope that \<^verbatim>\<open>encrypt_field\<close>
  produced, encoded again before the call. What \<^verbatim>\<open>decrypt_field\<close> itself guarantees: the
  result is a \<^verbatim>\<open>SecurityError\<close> whenever the recomputed HMAC differs from the stored one,
  and otherwise whenever AES-GCM answers \<^verbatim>\<open>InvalidTag\<close>. For a byte of the IV, the
  ciphertext or the tag this needs the library HMAC to tell the changed bytes from the
  original ones (or AES-GCM to reject them); that the HMAC does so for every pair of
  messages is a property of the hash function, and no function into 32 bytes has it for
  all messages. For a byte of the stored HMAC nothing is needed, see
  \<open>stored_digest_change_detected\<close>.
\<close>

lemma tampering_detected_by_mac_or_tag:
  assumes "prims_ok P"
    and "init P key rot = Inr enc"
    and "length (iv env) = 12"
    and "s \<noteq> []"
    and "encrypt_field P enc env s c = Inr e"
    and "utf8_encode P e = Some raw"
    and "b64decode P raw = Some combined"
    and "i < length combined"
    and "b \<noteq> combined ! i"
    and "utf8_decode P (b64encode P (combined[i := b])) = Some e'"
    and "i < length combined - 32 \<Longrightarrow>
           hmac_sha256 P (auth_key enc) (authenticated_bytes (combined[i := b]))
             \<noteq> hmac_sha256 P (auth_key enc) (authenticated_bytes combined) \<or>
           gcm_decrypt P (encryption_key enc) (py_slice None (Some 12) (combined[i := b]))
               (py_slice (Some (- 48)) (Some (- 32)) (combined[i := b]))
               (py_slice (Some 12) (Some (- 48)) (combined[i := b])) = Inl InvalidTag"
  shows "\<exists>m. decrypt_field P enc e' = Inl (SecurityError m)"
proof -
  let ?t = "combined[i := b]"
  note f = init_fields [OF assms(1,2)]
  note d = decoded_envelope [OF assms(1) f(2) assms(3-7)]
  have ne: "?t \<noteq> []" using assms(8) by auto
  note et = envelope_text [OF assms(1) ne assms(10)]
  note run = decrypt_field_run_decoded [OF et(1) et(2) b64decode_encode [OF assms(1)], of enc]
  note tp = tampered_parts [OF d(1) assms(8,9)]
  show ?thesis
  proof (cases "hmac_sha256 P (auth_key enc) (authenticated_bytes ?t) = stored_hmac ?t")
    case False
    then show ?thesis using run by (simp add: decrypt_field_def)
  next
    case True
    have front: "i < length combined - 32"
    proof (rule ccontr)
      assume h: "\<not> i < length combined - 32"
      from tp(2) [OF h] True d(2) show False by simp
    qed
    from True tp(1) [OF front] d(2)
    have "hmac_sha256 P (auth_key enc) (authenticated_bytes ?t)
            = hmac_sha256 P (auth_key enc) (authenticated_bytes combined)"
      by simp
    with assms(11) [OF front]
    have "gcm_decrypt P (encryption_key enc) (py_slice None (Some 12) ?t)
            (py_slice (Some (- 48)) (Some (- 32)) ?t)
            (py_slice (Some 12) (Some (- 48)) ?t) = Inl InvalidTag"
      by blast
    then show ?thesis using run True by (simp add: decrypt_field_def)
  qed
qed

text \<open>
  A change in the last 32 bytes, the stored HMAC, is always detected: the digest
  recomputed over the unchanged bytes is the original one, and the stored one is not.
\<close>

lemma stored_digest_change_detected:
  assumes "prims_ok P"
    and "init P key rot = Inr enc"
    and "length (iv env) = 12"
    and "s \<noteq> []"
    and "encrypt_field P enc env s c = Inr e"
    and "utf8_encode P e = Some raw"
    and "b64decode P raw = Some combined"
    and "i < length combined"
    and "length combined - 32 \<le> i"
    and "b \<noteq> combined ! i"
    and "utf8_decode P (b64encode P (combined[i := b])) = Some e'"
  shows "decrypt_field P enc e'
           = Inl (SecurityError ''Data integrity check failed - possible tampering'') \<and>
         decrypt_field_ops P enc e' = [Base64Decode, HmacCompute]"
proof -
  let ?t = "combined[i := b]"
  note f = init_fields [OF assms(1,2)]
  note d = decoded_envelope [OF assms(1) f(2) assms(3-7)]
  have ne: "?t \<noteq> []" using assms(8) by auto
  note et = envelope_text [OF assms(1) ne assms(11)]
  note run = decrypt_field_run_decoded [OF et(1) et(2) b64decode_encode [OF assms(1)], of enc]
  have h: "\<not> i < length combined - 32" using assms(9) by simp
  from tampered_parts(2) [OF d(1) assms(8,10) h] d(2)
  have "hmac_sha256 P (auth_key enc) (authenticated_bytes ?t) \<noteq> stored_hmac ?t" by auto
  then show ?thesis using run by (simp add: decrypt_field_def decrypt_field_ops_def)
qed

text \<open>
  The envelope of \<open>Ivan\<close> under the sample primitives, with the first byte of the IV
  changed from 1 to 2: the sample MAC tells the two messages apart, and the change is
  detected.
\<close>

lemma tampering_detected_sample:
  "\<exists>e raw combined e'.
     prims_ok sample_prims \<and> init sample_prims sample_key 90 = Inr sample_encryptor \<and>
     length (iv sample_env) = 12 \<and> ''Ivan'' \<noteq> [] \<and>
     encrypt_field sample_prims sample_encryptor sample_env ''Ivan'' FIO = Inr e \<and>
     utf8_encode sample_prims e = Some raw \<and>
     b64decode sample_prims raw = Some combined \<and>
     0 < length combined \<and> 2 \<noteq> combined ! 0 \<and>
     utf8_decode sample_prims (b64encode sample_prims (combined[0 := 2])) = Some e' \<and>
     hmac_sha256 sample_prims (auth_key sample_encryptor) (authenticated_bytes (combined[0 := 2]))
       \<noteq> hmac_sha256 sample_prims (auth_key sample_encryptor) (authenticated_bytes combined) \<and>
     (\<exists>m. decrypt_field sample_prims sample_encryptor e' = Inl (SecurityError m))"
proof -
  note ok = sample_prims_ok
  note f = init_fields [OF ok init_sample_encryptor]
  have s: "''Ivan'' \<noteq> []" by simp
  have r: "key_rotation_days sample_encryptor \<noteq> 0" using f(1) by simp
  obtain e where e: "encrypt_field sample_prims sample_encryptor sample_env ''Ivan'' FIO = Inr e"
    using encrypt_field_success
      [OF ok s create_metadata_ok [OF r, of sample_env FIO] sample_encodable]
    by blast
  from encrypt_field_envelope [OF ok f(2) sample_env_iv s e] obtain ct tag where
    tag: "length tag = 16" and
    raw: "utf8_encode sample_prims e
          = Some (b64encode sample_prims (iv sample_env @ ct @ tag
                    @ hmac_sha256 sample_prims (auth_key sample_encryptor)
                        (iv sample_env @ ct @ tag)))"
    by blast
  define mac where
    "mac = hmac_sha256 sample_prims (auth_key sample_encryptor) (iv sample_env @ ct @ tag)"
  define combined where "combined = iv sample_env @ ct @ tag @ mac"
  have m: "length mac = 32" unfolding mac_def using ok by (rule hmac_length)
  have raw': "utf8_encode sample_prims e = Some (b64encode sample_prims combined)"
    using raw by (simp only: combined_def mac_def)
  have dec: "b64decode sample_prims (b64encode sample_prims combined) = Some combined"
    using ok by (rule b64decode_encode)
  have pos: "0 < length combined" by (simp add: combined_def sample_env_def)
  have first: "2 \<noteq> combined ! 0" by (simp add: combined_def sample_env_def)
  obtain e' where
    e': "utf8_decode sample_prims (b64encode sample_prims (combined[0 := 2])) = Some e'"
    using b64encode_text [OF ok] by blast
  have upd: "combined[0 := 2] = [2, 2, 3, 4, 5, 6, 7, 8, 9, 10, 11, 12] @ ct @ tag @ mac"
    by (simp add: combined_def sample_env_def)
  have l12: "length [2 :: byte, 2, 3, 4, 5, 6, 7, 8, 9, 10, 11, 12] = 12" by simp
  have a1: "authenticated_bytes combined = iv sample_env @ ct @ tag"
    unfolding combined_def
    by (simp only: authenticated_bytes_def slices_of_envelope [OF sample_env_iv tag m])
  have a2: "authenticated_bytes (combined[0 := 2])
            = [2, 2, 3, 4, 5, 6, 7, 8, 9, 10, 11, 12] @ ct @ tag"
    unfolding upd by (simp only: authenticated_bytes_def slices_of_envelope [OF l12 tag m])
  have differ:
    "hmac_sha256 sample_prims (auth_key sample_encryptor) (authenticated_bytes (combined[0 := 2]))
       \<noteq> hmac_sha256 sample_prims (auth_key sample_encryptor) (authenticated_bytes combined)"
    unfolding a1 a2 by (simp add: sample_prims_def sample_mac_def sample_env_def)
  have detected: "\<exists>m. decrypt_field sample_prims sample_encryptor e' = Inl (SecurityError m)"
    using tampering_detected_by_mac_or_tag [OF ok init_sample_encryptor sample_env_iv s e raw' dec pos first e']
      differ
    by blast
  show ?thesis
    using ok init_sample_encryptor sample_env_iv s e raw' dec pos first e' differ detected
    by blast
qed

subsection \<open>Encryption and decryption of records\<close>

lemma encrypt_items_skip:
  "\<not> (field \<in> set ENCRYPTED_FIELDS \<and> truthy val) \<Longrightarrow>
   encrypt_items P enc envs i ((field, val) # rest) acc
     = encrypt_items P enc envs (Suc i) rest (dict_set acc field val)"
  by (cases "field \<in> set ENCRYPTED_FIELDS") auto

lemma encrypt_items_error:
  assumes "i < length r"
    and "fst (r ! i) \<in> set ENCRYPTED_FIELDS"
    and "truthy (snd (r ! i))"
    and "encrypt_field P enc (envs (n + i)) (py_str P (snd (r ! i)))
           (map_field_to_category (fst (r ! i))) = Inl e"
  shows "\<exists>x. encrypt_items P enc envs n r acc = Inl (EncryptionError x)"
  using assms
proof (induction r arbitrary: i n acc)
  case Nil
  then show ?case by simp
next
  case (Cons p r)
  obtain field val where p: "p = (field, val)" by (cases p)
  show ?case
  proof (cases i)
    case 0
    with Cons.prems p encrypt_field_errors [of P enc "envs n" "py_str P val"
        "map_field_to_category field" e]
    show ?thesis by auto
  next
    case (Suc j)
    with Cons.prems have j: "j < length r" "fst (r ! j) \<in> set ENCRYPTED_FIELDS"
      "truthy (snd (r ! j))"
      "encrypt_field P enc (envs (Suc n + j)) (py_str P (snd (r ! j)))
         (map_field_to_category (fst (r ! j))) = Inl e"
      by simp_all
    note ih = Cons.IH [OF j]
    show ?thesis
    proof (cases "field \<in> set ENCRYPTED_FIELDS \<and> truthy val")
      case False
      have "encrypt_items P enc envs n (p # r) acc
              = encrypt_items P enc envs (Suc n) r (dict_set acc field val)"
        unfolding p using False by (rule encrypt_items_skip)
      then show ?thesis using ih [of "dict_set acc field val"] by simp
    next
      case True
      show ?thesis
      proof (cases "encrypt_field P enc (envs n) (py_str P val) (map_field_to_category field)")
        case (Inl e')
        with True p encrypt_field_errors [OF Inl] show ?thesis by auto
      next
        case (Inr t)
        with True p ih show ?thesis by simp
      qed
    qed
  qed
qed

lemma encrypt_items_first_error:
  assumes "i < length r"
    and "fst (r ! i) \<in> set ENCRYPTED_FIELDS"
    and "truthy (snd (r ! i))"
    and "encrypt_field P enc (envs (n + i)) (py_str P (snd (r ! i)))
           (map_field_to_category (fst (r ! i))) = Inl e"
    and "\<forall>j<i. fst (r ! j) \<in> set ENCRYPTED_FIELDS \<and> truthy (snd (r ! j)) \<longrightarrow>
           \<not> isl (encrypt_field P enc (envs (n + j)) (py_str P (snd (r ! j)))
                    (map_field_to_category (fst (r ! j))))"
  shows "encrypt_items P enc envs n r acc = Inl e"
  using assms
proof (induction r arbitrary: i n acc)
  case Nil
  then show ?case by simp
next
  case (Cons p r)
  obtain field val where p: "p = (field, val)" by (cases p)
  show ?case
  proof (cases i)
    case 0
    with Cons.prems p show ?thesis by simp
  next
    case (Suc j)
    with Cons.prems have j: "j < length r" "fst (r ! j) \<in> set ENCRYPTED_FIELDS"
      "truthy (snd (r ! j))"
      "encrypt_field P enc (envs (Suc n + j)) (py_str P (snd (r ! j)))
         (map_field_to_category (fst (r ! j))) = Inl e"
      by simp_all
    have earlier: "\<forall>k<j. fst (r ! k) \<in> set ENCRYPTED_FIELDS \<and> truthy (snd (r ! k)) \<longrightarrow>
           \<not> isl (encrypt_field P enc (envs (Suc n + k)) (py_str P (snd (r ! k)))
                    (map_field_to_category (fst (r ! k))))"
    proof (intro allI impI)
      fix k assume "k < j" and c: "fst (r ! k) \<in> set ENCRYPTED_FIELDS \<and> truthy (snd (r ! k))"
      then have "Suc k < i" using Suc by simp
      with Cons.prems(5) c show "\<not> isl (encrypt_field P enc (envs (Suc n + k))
          (py_str P (snd (r ! k))) (map_field_to_category (fst (r ! k))))"
        by fastforce
    qed
    note ih = Cons.IH [OF j earlier]
    have head: "field \<in> set ENCRYPTED_FIELDS \<and> truthy val \<longrightarrow>
           \<not> isl (encrypt_field P enc (envs n) (py_str P val) (map_field_to_category field))"
      using Cons.prems(5) Suc p by fastforce
    show ?thesis
    proof (cases "field \<in> set ENCRYPTED_FIELDS \<and> truthy val")
      case False
      have "encrypt_items P enc envs n (p # r) acc
              = encrypt_items P enc envs (Suc n) r (dict_set acc field val)"
        unfolding p using False by (rule encrypt_items_skip)
      then show ?thesis using ih [of "dict_set acc field val"] by simp
    next
      case True
      with head obtain t where
        "encrypt_field P enc (envs n) (py_str P val) (map_field_to_category field) = Inr t"
        by (cases "encrypt_field P enc (envs n) (py_str P val) (map_field_to_category field)")
          simp_all
      with True p ih show ?thesis by simp
    qed
  qed
qed

text \<open>
  Claim C5. Record encryption is all-or-nothing: if \<^verbatim>\<open>encrypt_field\<close> raises an
  \<^verbatim>\<open>EncryptionError\<close> for a sensitive field of the record (the field at position \<open>i\<close>, with
  a truthy value), then \<^verbatim>\<open>auto_encrypt_user_data\<close> raises an \<^verbatim>\<open>EncryptionError\<close> and returns
  no record; when no earlier sensitive field fails, the error raised is the very error of
  that field.
\<close>

theorem record_encryption_all_or_nothing:
  assumes "i < length user_data"
    and "fst (user_data ! i) \<in> set ENCRYPTED_FIELDS"
    and "truthy (snd (user_data ! i))"
    and "encrypt_field P enc (field_envs renv i) (py_str P (snd (user_data ! i)))
           (map_field_to_category (fst (user_data ! i))) = Inl e"
  shows "(\<exists>x. auto_encrypt_user_data P enc renv user_data = Inl (EncryptionError x)) \<and>
         ((\<forall>j<i. fst (user_data ! j) \<in> set ENCRYPTED_FIELDS \<and> truthy (snd (user_data ! j)) \<longrightarrow>
             \<not> isl (encrypt_field P enc (field_envs renv j) (py_str P (snd (user_data ! j)))
                      (map_field_to_category (fst (user_data ! j))))) \<longrightarrow>
          auto_encrypt_user_data P enc renv user_data = Inl e)"
proof
  from encrypt_items_error [of i user_data P enc "field_envs renv" 0 e "[]"] assms
  obtain x where "encrypt_items P enc (field_envs renv) 0 user_data [] = Inl (EncryptionError x)"
    by auto
  then show "\<exists>x. auto_encrypt_user_data P enc renv user_data = Inl (EncryptionError x)"
    by (simp add: auto_encrypt_user_data_def)
next
  show "(\<forall>j<i. fst (user_data ! j) \<in> set ENCRYPTED_FIELDS \<and> truthy (snd (user_data ! j)) \<longrightarrow>
             \<not> isl (encrypt_field P enc (field_envs renv j) (py_str P (snd (user_data ! j)))
                      (map_field_to_category (fst (user_data ! j))))) \<longrightarrow>
          auto_encrypt_user_data P enc renv user_data = Inl e"
  proof
    assume a: "\<forall>j<i. fst (user_data ! j) \<in> set ENCRYPTED_FIELDS \<and> truthy (snd (user_data ! j)) \<longrightarrow>
             \<not> isl (encrypt_field P enc (field_envs renv j) (py_str P (snd (user_data ! j)))
                      (map_field_to_category (fst (user_data ! j))))"
    have "encrypt_items P enc (field_envs renv) 0 user_data [] = Inl e"
      using encrypt_items_first_error [of i user_data P enc "field_envs renv" 0 e "[]"] assms a
      by simp
    then show "auto_encrypt_user_data P enc renv user_data = Inl e"
      by (simp add: auto_encrypt_user_data_def)
  qed
qed

text \<open>
  Witness for C5: an encryptor with rotation period 0, for which \<^verbatim>\<open>encrypt_field\<close> fails on
  the division by zero, and a record whose second field is sensitive.
\<close>

theorem record_encryption_all_or_nothing_witness:
  "(1 :: nat) < length [(''age'', VInt 30), (''fio'', VStr ''Ivan'')] \<and>
   fst ([(''age'', VInt 30), (''fio'', VStr ''Ivan'')] ! 1) \<in> set ENCRYPTED_FIELDS \<and>
   truthy (snd ([(''age'', VInt 30), (''fio'', VStr ''Ivan'')] ! 1)) \<and>
   encrypt_field sample_prims (sample_encryptor\<lparr>key_rotation_days := 0\<rparr>)
       (field_envs sample_record_env 1) ''Ivan'' FIO
     = Inl (EncryptionError ZeroDivisionError) \<and>
   auto_encrypt_user_data sample_prims (sample_encryptor\<lparr>key_rotation_days := 0\<rparr>)
       sample_record_env [(''age'', VInt 30), (''fio'', VStr ''Ivan'')]
     = Inl (EncryptionError ZeroDivisionError)"
proof -
  let ?r = "[(''age'', VInt 30), (''fio'', VStr ''Ivan'')]"
  let ?enc = "sample_encryptor\<lparr>key_rotation_days := 0\<rparr>"
  have l: "(1 :: nat) < length ?r" by simp
  have f: "fst (?r ! 1) \<in> set ENCRYPTED_FIELDS" by (simp add: ENCRYPTED_FIELDS_def)
  have t: "truthy (snd (?r ! 1))" by simp
  have c: "map_field_to_category (fst (?r ! 1)) = FIO"
    by (simp add: map_field_to_category_def field_category_map_def)
  have e: "encrypt_field sample_prims ?enc (field_envs sample_record_env 1)
             (py_str sample_prims (snd (?r ! 1))) (map_field_to_category (fst (?r ! 1)))
           = Inl (EncryptionError ZeroDivisionError)"
    unfolding c
    by (simp add: encrypt_field_def create_metadata_def get_current_key_version_def)
  have n: "\<forall>j<1. fst (?r ! j) \<in> set ENCRYPTED_FIELDS \<and> truthy (snd (?r ! j)) \<longrightarrow>
             \<not> isl (encrypt_field sample_prims ?enc (field_envs sample_record_env j)
                      (py_str sample_prims (snd (?r ! j)))
                      (map_field_to_category (fst (?r ! j))))"
    by (simp add: ENCRYPTED_FIELDS_def)
  from record_encryption_all_or_nothing [OF l f t e] n
  have "auto_encrypt_user_data sample_prims ?enc sample_record_env ?r
          = Inl (EncryptionError ZeroDivisionError)"
    by blast
  then show ?thesis using l f t e c by simp
qed

lemma map_of_dict_set: "map_of (dict_set d k v) = (map_of d)(k \<mapsto> v)"
  by (induction d) auto

lemma keys_dict_set: "fst ` set (dict_set d k v) = insert k (fst ` set d)"
proof (induction d)
  case Nil
  show ?case by simp
next
  case (Cons p d)
  obtain k' v' where p: "p = (k', v')" by (cases p)
  show ?case
  proof (cases "k' = k")
    case True
    then show ?thesis unfolding p by auto
  next
    case False
    then show ?thesis unfolding p using Cons.IH by auto
  qed
qed

lemma distinct_dict_set: "distinct (map fst d) \<Longrightarrow> distinct (map fst (dict_set d k v))"
proof (induction d)
  case Nil
  show ?case by simp
next
  case (Cons p d)
  obtain k' v' where p: "p = (k', v')" by (cases p)
  show ?case
  proof (cases "k' = k")
    case True
    then show ?thesis using Cons.prems unfolding p by simp
  next
    case False
    then show ?thesis using Cons unfolding p by (simp add: keys_dict_set)
  qed
qed

lemma decrypt_items_step:
  "decrypt_items P enc ((field, val) # rest) acc
     = decrypt_items P enc rest (dict_set acc field (decrypted_item P enc field val))"
proof (cases "field \<in> set ENCRYPTED_FIELDS \<and> truthy val \<and> is_str val")
  case False
  then show ?thesis by (auto simp: decrypted_item_def)
next
  case True
  show ?thesis
  proof (cases "decrypt_field P enc (the_str val)")
    case (Inr r)
    with True show ?thesis by (cases r) (simp add: decrypted_item_def)
  next
    case (Inl e)
    from decrypt_field_errors [OF Inl] show ?thesis
    proof
      assume "\<exists>x. e = DecryptionError x"
      with True Inl show ?thesis by (auto simp: decrypted_item_def)
    next
      assume "\<exists>m. e = SecurityError m"
      with True Inl show ?thesis by (auto simp: decrypted_item_def)
    qed
  qed
qed

lemma decrypt_items_lookup:
  assumes "distinct (map fst r)"
  shows "\<exists>d. decrypt_items P enc r acc = Inr d \<and>
             (\<forall>k. map_of d k = (case map_of r k of
                                  None \<Rightarrow> map_of acc k
                                | Some v \<Rightarrow> Some (decrypted_item P enc k v)))"
  using assms
proof (induction r arbitrary: acc)
  case Nil
  show ?case by simp
next
  case (Cons p r)
  obtain field val where p: "p = (field, val)" by (cases p)
  from Cons.prems have dr: "distinct (map fst r)" and nf: "field \<notin> fst ` set r"
    unfolding p by simp_all
  from Cons.IH [OF dr, of "dict_set acc field (decrypted_item P enc field val)"]
  obtain d where d: "decrypt_items P enc r (dict_set acc field (decrypted_item P enc field val)) = Inr d"
    and l: "\<And>k. map_of d k = (case map_of r k of
                 None \<Rightarrow> map_of (dict_set acc field (decrypted_item P enc field val)) k
               | Some v \<Rightarrow> Some (decrypted_item P enc k v))"
    by blast
  have none: "map_of r field = None" using nf by (simp add: map_of_eq_None_iff)
  have "map_of d k = (case map_of (p # r) k of
                        None \<Rightarrow> map_of acc k
                      | Some v \<Rightarrow> Some (decrypted_item P enc k v))" for k
  proof (cases "k = field")
    case True
    then show ?thesis unfolding p using l [of field] none by (simp add: map_of_dict_set)
  next
    case False
    then show ?thesis unfolding p using l [of k]
      by (simp add: map_of_dict_set split: option.splits)
  qed
  then show ?case unfolding p decrypt_items_step using d by blast
qed

lemma auto_decrypt_lookup:
  assumes "distinct (map fst r)"
  shows "\<exists>d. auto_decrypt_user_data P enc r = Inr d \<and>
             (\<forall>k. map_of d k = map_option (decrypted_item P enc k) (map_of r k))"
proof -
  from decrypt_items_lookup [OF assms, of P enc "[]"]
  obtain d where d: "decrypt_items P enc r [] = Inr d"
    and l: "\<forall>k. map_of d k = (case map_of r k of
                 None \<Rightarrow> map_of [] k | Some v \<Rightarrow> Some (decrypted_item P enc k v))"
    by blast
  have "map_of d k = map_option (decrypted_item P enc k) (map_of r k)" for k
    using l by (cases "map_of r k") simp_all
  with d show ?thesis by (simp add: auto_decrypt_user_data_def)
qed

text \<open>
  Claim C6. Record decryption is field-isolated: if the envelope of one sensitive field
  makes \<^verbatim>\<open>decrypt_field\<close> raise, \<^verbatim>\<open>auto_decrypt_user_data\<close> still returns a record; the failing
  field holds the sentinel \<^verbatim>\<open>"[DECRYPTION_ERROR]"\<close>, every other field that is not a sensitive
  non-empty string holds its value unchanged, and every other sensitive non-empty string
  holds the value \<^verbatim>\<open>decrypt_field\<close> returns for it. The keys of the record are distinct, as
  the keys of a dict are.
\<close>

theorem record_decryption_field_isolated:
  assumes "distinct (map fst r)"
    and "(f, VStr t) \<in> set r"
    and "f \<in> set ENCRYPTED_FIELDS"
    and "t \<noteq> []"
    and "decrypt_field P enc t = Inl err"
  shows "\<exists>d. auto_decrypt_user_data P enc r = Inr d \<and>
             map_of d f = Some (VStr ''[DECRYPTION_ERROR]'') \<and>
             (\<forall>(k, v) \<in> set r. k \<noteq> f \<longrightarrow>
                (\<not> (k \<in> set ENCRYPTED_FIELDS \<and> truthy v \<and> is_str v) \<longrightarrow> map_of d k = Some v) \<and>
                (\<forall>x c. k \<in> set ENCRYPTED_FIELDS \<and> truthy v \<and> is_str v \<and>
                       decrypt_field P enc (the_str v) = Inr (x, c) \<longrightarrow> map_of d k = Some x))"
proof -
  from auto_decrypt_lookup [OF assms(1), of P enc]
  obtain d where d: "auto_decrypt_user_data P enc r = Inr d"
    and l: "\<And>k. map_of d k = map_option (decrypted_item P enc k) (map_of r k)"
    by blast
  have at: "map_of r k = Some v" if "(k, v) \<in> set r" for k v
    using assms(1) that by simp
  have "map_of d f = Some (decrypted_item P enc f (VStr t))"
    using l [of f] at [OF assms(2)] by simp
  then have bad: "map_of d f = Some (VStr ''[DECRYPTION_ERROR]'')"
    using assms(3-5) by (simp add: decrypted_item_def DECRYPTION_ERROR_def)
  have rest: "(\<not> (k \<in> set ENCRYPTED_FIELDS \<and> truthy v \<and> is_str v) \<longrightarrow> map_of d k = Some v) \<and>
              (\<forall>x c. k \<in> set ENCRYPTED_FIELDS \<and> truthy v \<and> is_str v \<and>
                     decrypt_field P enc (the_str v) = Inr (x, c) \<longrightarrow> map_of d k = Some x)"
    if "(k, v) \<in> set r" for k v
  proof -
    have "map_of d k = Some (decrypted_item P enc k v)" using l [of k] at [OF that] by simp
    then show ?thesis by (auto simp: decrypted_item_def)
  qed
  from d bad rest show ?thesis by blast
qed

lemma sample_short_rejected:
  "decrypt_field sample_prims sample_encryptor ''AB''
     = Inl (SecurityError ''Data integrity check failed - possible tampering'')"
proof -
  have ne: "''AB'' \<noteq> []" by simp
  note d = sample_short_decoded
  show ?thesis
    using decrypt_field_run_decoded [OF ne conjunct1 [OF d] conjunct2 [OF d], of sample_encryptor]
      sample_short_mismatch
    by (simp add: decrypt_field_def)
qed

lemma sample_envelope:
  assumes "s \<noteq> []"
  shows "\<exists>e. encrypt_field sample_prims sample_encryptor sample_env s c = Inr e \<and> e \<noteq> [] \<and>
             decrypt_field sample_prims sample_encryptor e = Inr (VStr s, c)"
proof -
  note ok = sample_prims_ok
  note f = init_fields [OF ok init_sample_encryptor]
  have r: "key_rotation_days sample_encryptor \<noteq> 0" using f(1) by simp
  obtain e where e: "encrypt_field sample_prims sample_encryptor sample_env s c = Inr e"
    using encrypt_field_success
      [OF ok assms create_metadata_ok [OF r, of sample_env c] sample_encodable]
    by blast
  from decrypt_encrypted [OF ok f(2) sample_env_iv assms e] e show ?thesis by blast
qed

text \<open>
  Witness for C6: a record whose \<open>fio\<close> holds the one-byte envelope \<open>AB\<close>, which is
  rejected, next to a field that is not sensitive and a \<open>phone\<close> that holds a good
  envelope.
\<close>

theorem record_decryption_field_isolated_witness:
  "\<exists>e. distinct (map fst [(''fio'', VStr ''AB''), (''age'', VInt 30), (''phone'', VStr e)]) \<and>
        (''fio'', VStr ''AB'') \<in> set [(''fio'', VStr ''AB''), (''age'', VInt 30), (''phone'', VStr e)] \<and>
        ''fio'' \<in> set ENCRYPTED_FIELDS \<and> ''AB'' \<noteq> [] \<and>
        decrypt_field sample_prims sample_encryptor ''AB''
          = Inl (SecurityError ''Data integrity check failed - possible tampering'') \<and>
        decrypt_field sample_prims sample_encryptor e = Inr (VStr ''+79001234567'', PHONE) \<and>
        (\<exists>d. auto_decrypt_user_data sample_prims sample_encryptor
                [(''fio'', VStr ''AB''), (''age'', VInt 30), (''phone'', VStr e)] = Inr d \<and>
              map_of d ''fio'' = Some (VStr ''[DECRYPTION_ERROR]'') \<and>
              map_of d ''age'' = Some (VInt 30) \<and>
              map_of d ''phone'' = Some (VStr ''+79001234567''))"
proof -
  have s: "''+79001234567'' \<noteq> []" by simp
  from sample_envelope [OF s, of PHONE] obtain e where ne: "e \<noteq> []"
    and good: "decrypt_field sample_prims sample_encryptor e = Inr (VStr ''+79001234567'', PHONE)"
    by blast
  let ?r = "[(''fio'', VStr ''AB''), (''age'', VInt 30), (''phone'', VStr e)]"
  have di: "distinct (map fst ?r)" by simp
  have mem: "(''fio'', VStr ''AB'') \<in> set ?r" by simp
  have fio: "''fio'' \<in> set ENCRYPTED_FIELDS" by (simp add: ENCRYPTED_FIELDS_def)
  have ab: "''AB'' \<noteq> []" by simp
  from record_decryption_field_isolated [OF di mem fio ab sample_short_rejected]
  obtain d where d: "auto_decrypt_user_data sample_prims sample_encryptor ?r = Inr d"
    and bad: "map_of d ''fio'' = Some (VStr ''[DECRYPTION_ERROR]'')"
    and rest: "\<forall>(k, v) \<in> set ?r. k \<noteq> ''fio'' \<longrightarrow>
        (\<not> (k \<in> set ENCRYPTED_FIELDS \<and> truthy v \<and> is_str v) \<longrightarrow> map_of d k = Some v) \<and>
        (\<forall>x c. k \<in> set ENCRYPTED_FIELDS \<and> truthy v \<and> is_str v \<and>
               decrypt_field sample_prims sample_encryptor (the_str v) = Inr (x, c)
               \<longrightarrow> map_of d k = Some x)"
    by blast
  have age: "map_of d ''age'' = Some (VInt 30)"
    using rest by (simp add: ENCRYPTED_FIELDS_def)
  have ph: "''phone'' \<in> set ENCRYPTED_FIELDS" by (simp add: ENCRYPTED_FIELDS_def)
  have phone: "map_of d ''phone'' = Some (VStr ''+79001234567'')"
    using rest ne good ph by simp
  show ?thesis
    using di mem fio ab sample_short_rejected good d bad age phone by blast
qed

subsection \<open>The stamps of an encrypted record\<close>

lemma encrypt_items_distinct:
  assumes "distinct (map fst acc)" and "encrypt_items P enc envs n r acc = Inr d"
  shows "distinct (map fst d)"
  using assms
proof (induction r arbitrary: n acc)
  case Nil
  then show ?case by simp
next
  case (Cons p r)
  obtain field val where p: "p = (field, val)" by (cases p)
  show ?case
  proof (cases "field \<in> set ENCRYPTED_FIELDS \<and> truthy val")
    case False
    have "encrypt_items P enc envs n (p # r) acc
            = encrypt_items P enc envs (Suc n) r (dict_set acc field val)"
      unfolding p using False by (rule encrypt_items_skip)
    with Cons.prems(2) have "encrypt_items P enc envs (Suc n) r (dict_set acc field val) = Inr d"
      by simp
    with distinct_dict_set [OF Cons.prems(1)] show ?thesis by (rule Cons.IH)
  next
    case True
    show ?thesis
    proof (cases "encrypt_field P enc (envs n) (py_str P val) (map_field_to_category field)")
      case (Inl e)
      with True Cons.prems(2) show ?thesis unfolding p by simp
    next
      case (Inr t)
      with True Cons.prems(2)
      have "encrypt_items P enc envs (Suc n) r (dict_set acc field (VStr t)) = Inr d"
        unfolding p by simp
      with distinct_dict_set [OF Cons.prems(1)] show ?thesis by (rule Cons.IH)
    qed
  qed
qed

lemma auto_encrypt_result:
  assumes "auto_encrypt_user_data P enc renv r = Inr er"
  shows "\<exists>ed kv. encrypt_items P enc (field_envs renv) 0 r [] = Inr ed \<and>
           get_current_key_version enc (stamp_days renv) = Inr kv \<and>
           er = dict_set (dict_set (dict_set ed ''_encrypted'' (VBool True))
                            ''_encryption_version'' (VStr kv))
                  ''_encrypted_at'' (VStr (stamp_at renv))"
  using assms
  by (auto simp: auto_encrypt_user_data_def split: sum.splits)

lemma reserved_keys_not_sensitive:
  "''_encrypted'' \<notin> set ENCRYPTED_FIELDS"
  "''_encryption_version'' \<notin> set ENCRYPTED_FIELDS"
  "''_encrypted_at'' \<notin> set ENCRYPTED_FIELDS"
  by (simp_all add: ENCRYPTED_FIELDS_def)

text \<open>
  Claim C10. \<^verbatim>\<open>auto_decrypt_user_data\<close> copies every key that is not in the sensitive-field
  set unchanged, the reserved keys \<^verbatim>\<open>_encrypted\<close>, \<^verbatim>\<open>_encryption_version\<close> and
  \<^verbatim>\<open>_encrypted_at\<close> among them: for every record, the decrypted form of the record that
  \<^verbatim>\<open>auto_encrypt_user_data\<close> returns holds the three stamps (\<^verbatim>\<open>True\<close>, the key version and
  the time of the stamp), whether or not the record had these keys.
\<close>

theorem decryption_keeps_stamps:
  assumes "auto_encrypt_user_data P enc renv r = Inr er"
  shows "\<exists>d. auto_decrypt_user_data P enc er = Inr d \<and>
             map_of d ''_encrypted'' = Some (VBool True) \<and>
             (\<exists>kv. get_current_key_version enc (stamp_days renv) = Inr kv \<and>
                   map_of d ''_encryption_version'' = Some (VStr kv)) \<and>
             map_of d ''_encrypted_at'' = Some (VStr (stamp_at renv)) \<and>
             (\<forall>k. k \<notin> set ENCRYPTED_FIELDS \<longrightarrow> map_of d k = map_of er k)"
proof -
  from auto_encrypt_result [OF assms] obtain ed kv where
    ed: "encrypt_items P enc (field_envs renv) 0 r [] = Inr ed" and
    kv: "get_current_key_version enc (stamp_days renv) = Inr kv" and
    er: "er = dict_set (dict_set (dict_set ed ''_encrypted'' (VBool True))
                          ''_encryption_version'' (VStr kv))
                ''_encrypted_at'' (VStr (stamp_at renv))"
    by blast
  have "distinct (map fst ed)" using encrypt_items_distinct [OF _ ed] by simp
  then have di: "distinct (map fst er)" unfolding er by (intro distinct_dict_set)
  from auto_decrypt_lookup [OF di, of P enc] obtain d where
    d: "auto_decrypt_user_data P enc er = Inr d" and
    l: "\<And>k. map_of d k = map_option (decrypted_item P enc k) (map_of er k)"
    by blast
  have frame: "map_of d k = map_of er k" if "k \<notin> set ENCRYPTED_FIELDS" for k
    using l [of k] that by (cases "map_of er k") (simp_all add: decrypted_item_def)
  have s1: "map_of er ''_encrypted'' = Some (VBool True)"
    and s2: "map_of er ''_encryption_version'' = Some (VStr kv)"
    and s3: "map_of er ''_encrypted_at'' = Some (VStr (stamp_at renv))"
    unfolding er by (simp_all add: map_of_dict_set)
  note rk = reserved_keys_not_sensitive
  from d kv frame [OF rk(1)] frame [OF rk(2)] frame [OF rk(3)] s1 s2 s3 frame
  show ?thesis by auto
qed

text \<open>
  Witness for C10: a record with a sensitive field and none of the reserved keys.
\<close>

theorem decryption_keeps_stamps_witness:
  "\<exists>er. auto_encrypt_user_data sample_prims sample_encryptor sample_record_env
           [(''fio'', VStr ''Ivan''), (''age'', VInt 30)] = Inr er \<and>
        (\<exists>d. auto_decrypt_user_data sample_prims sample_encryptor er = Inr d \<and>
              map_of d ''_encrypted'' = Some (VBool True) \<and>
              map_of d ''_encryption_version'' = Some (VStr ''v24'') \<and>
              map_of d ''_encrypted_at'' = Some (VStr ''2026-01-01T00:00:01''))"
proof -
  have s: "''Ivan'' \<noteq> []" by simp
  from sample_envelope [OF s, of FIO] obtain e where
    e: "encrypt_field sample_prims sample_encryptor sample_env ''Ivan'' FIO = Inr e"
    by blast
  have c: "map_field_to_category ''fio'' = FIO"
    by (simp add: map_field_to_category_def field_category_map_def)
  have d24: "str_int 24 = ''24''" by code_simp
  have kv: "get_current_key_version sample_encryptor 2192 = Inr ''v24''"
    by (simp add: get_current_key_version_def sample_encryptor_def d24)
  have "\<exists>er. auto_encrypt_user_data sample_prims sample_encryptor sample_record_env
           [(''fio'', VStr ''Ivan''), (''age'', VInt 30)] = Inr er"
    using e c kv
    by (simp add: auto_encrypt_user_data_def sample_record_env_def ENCRYPTED_FIELDS_def)
  then obtain er where er: "auto_encrypt_user_data sample_prims sample_encryptor sample_record_env
           [(''fio'', VStr ''Ivan''), (''age'', VInt 30)] = Inr er"
    by blast
  from decryption_keeps_stamps [OF er] kv
  have "\<exists>d. auto_decrypt_user_data sample_prims sample_encryptor er = Inr d \<and>
              map_of d ''_encrypted'' = Some (VBool True) \<and>
              map_of d ''_encryption_version'' = Some (VStr ''v24'') \<and>
              map_of d ''_encrypted_at'' = Some (VStr ''2026-01-01T00:00:01'')"
    by (auto simp: sample_record_env_def)
  with er show ?thesis by blast
qed

end
